theory Spec2Isabelle
  imports Main "HOL-Library.Sublist"
begin

section \<open>Text matching (\<open>LogSearcher.searchInLogBody\<close>, \<open>LogSearcher.getContext\<close>)\<close>

text \<open>
  JavaScript strings are modelled as \<open>string\<close>. The string primitives of the runtime that
  the source calls are written out for the ASCII range: \<open>split('\n')\<close>, \<open>toLowerCase\<close>,
  \<open>trim\<close>, \<open>includes\<close> and the decimal rendering of a number inside a template string.
  Numbers are integers: the counts, limits and sizes of the source are, and \<open>NaN\<close>, which
  \<open>parseInt\<close> can hand to the library, is left out.
\<close>

definition LF :: char where
  "LF = CHR 0x0A"

text \<open>\<open>s.split('\n')\<close>: the pieces between line feeds; the empty string gives one empty piece.\<close>

fun split_lf :: "string \<Rightarrow> string list" where
  "split_lf [] = [[]]"
| "split_lf (c # cs) =
     (if c = LF then [] # split_lf cs
      else (c # hd (split_lf cs)) # tl (split_lf cs))"

definition lowerChar :: "char \<Rightarrow> char" where
  "lowerChar c =
     (if 65 \<le> (of_char c :: nat) \<and> (of_char c :: nat) \<le> 90
      then char_of ((of_char c :: nat) + 32) else c)"

definition toLowerCase :: "string \<Rightarrow> string" where
  "toLowerCase s = map lowerChar s"

definition isWhiteSpace :: "char \<Rightarrow> bool" where
  "isWhiteSpace c = ((of_char c :: nat) \<in> {9, 10, 11, 12, 13, 32})"

definition trim :: "string \<Rightarrow> string" where
  "trim s = rev (dropWhile isWhiteSpace (rev (dropWhile isWhiteSpace s)))"

text \<open>\<open>s.includes(p)\<close>: \<open>p\<close> occurs in \<open>s\<close> as a contiguous piece.\<close>

fun str_includes :: "string \<Rightarrow> string \<Rightarrow> bool" where
  "str_includes [] p = (p = [])"
| "str_includes (c # cs) p = (prefix p (c # cs) \<or> str_includes cs p)"

definition digitChar :: "nat \<Rightarrow> char" where
  "digitChar d = char_of (48 + d)"

text \<open>The decimal numeral that \<open>`${n}`\<close> produces for a natural number.\<close>

function decimal :: "nat \<Rightarrow> string" where
  "decimal n = (if n < 10 then [digitChar n] else decimal (n div 10) @ [digitChar (n mod 10)])"
  by pat_completeness auto
termination
  by (relation "measure id") auto

declare decimal.simps [simp del]

text \<open>\<open>`${n}`\<close> for an integer \<open>n\<close>.\<close>

definition numberToString :: "int \<Rightarrow> string" where
  "numberToString n = (if n < 0 then ''-'' @ decimal (nat (- n)) else decimal (nat n))"

record LogMatch =
  lineNumber :: nat
  line :: string
  "context" :: "string list"

text \<open>
  The body of the \<open>for\<close> loop of \<open>getContext\<close>, started at index \<open>i\<close>; indices are
  integers, since \<open>matchIndex - contextLines\<close> may be negative before it is clipped.
  Every index the loop reads lies between \<open>start \<ge> 0\<close> and \<open>end \<le> lines.length - 1\<close>.
\<close>

function getContext_loop :: "string list \<Rightarrow> int \<Rightarrow> int \<Rightarrow> int \<Rightarrow> string list \<Rightarrow> string list" where
  "getContext_loop lines matchIndex end i ctx =
     (if i \<le> end
      then getContext_loop lines matchIndex end (i + 1)
             (if i \<noteq> matchIndex
              then ctx @ [numberToString (i + 1) @ '': '' @ trim (lines ! nat i)]
              else ctx)
      else ctx)"
  by pat_completeness auto
termination
  by (relation "measure (\<lambda>(lines, matchIndex, end, i, ctx). nat (end + 1 - i))") auto

declare getContext_loop.simps [simp del]

definition getContext :: "string list \<Rightarrow> int \<Rightarrow> int \<Rightarrow> string list" where
  "getContext lines matchIndex contextLines =
     (let start = max 0 (matchIndex - contextLines);
          end = min (int (length lines) - 1) (matchIndex + contextLines)
      in getContext_loop lines matchIndex end start [])"

text \<open>
  \<open>lines.forEach((line, index) => ...)\<close> over the remaining lines, \<open>index\<close> being the
  position of the first of them; \<open>all\<close> is the whole array, which \<open>getContext\<close> reads.
\<close>

fun searchInLogBody_forEach ::
  "string list \<Rightarrow> string \<Rightarrow> bool \<Rightarrow> nat \<Rightarrow> string list \<Rightarrow> LogMatch list \<Rightarrow> LogMatch list" where
  "searchInLogBody_forEach all searchPattern caseSensitive index [] matches = matches"
| "searchInLogBody_forEach all searchPattern caseSensitive index (l # ls) matches =
     (let searchLine = (if caseSensitive then l else toLowerCase l)
      in searchInLogBody_forEach all searchPattern caseSensitive (index + 1) ls
           (if str_includes searchLine searchPattern
            then matches @ [\<lparr>lineNumber = index + 1, line = trim l,
                              context = getContext all (int index) 2\<rparr>]
            else matches))"

definition searchInLogBody :: "string \<Rightarrow> string \<Rightarrow> bool \<Rightarrow> LogMatch list" where
  "searchInLogBody logBody searchText caseSensitive =
     (let lines = split_lf logBody;
          searchPattern = (if caseSensitive then searchText else toLowerCase searchText)
      in searchInLogBody_forEach lines searchPattern caseSensitive 0 lines [])"

section \<open>Remote log store (\<open>SalesforceClient\<close>)\<close>

text \<open>The field \<open>Id\<close> of a record is \<open>LogId\<close> here.\<close>

record DebugLog =
  LogId :: string
  LogUserId :: string
  LogLength :: int
  LastModifiedDate :: string
  Request :: string
  Operation :: string
  Application :: string
  Status :: string
  DurationMilliseconds :: int
  StartTime :: string
  Location :: string

text \<open>
  A thrown \<open>Error\<close> with its message; \<open>`${error}`\<close> renders it as \<open>Error: message\<close>.
\<close>

datatype error = Error string

fun errorToString :: "error \<Rightarrow> string" where
  "errorToString (Error m) = ''Error: '' @ m"

text \<open>
  The file contents the program writes. \<open>JSON.stringify\<close> is not modelled: a metadata
  sidecar is the record and the matches it serialises, a summary is the summary object.
  Both carry a clock reading (\<open>new Date().toISOString()\<close>) in the source, left out here.
\<close>

record DownloadSummary =
  summary_searchText :: string
  summary_totalLogsSearched :: nat
  summary_logsWithMatches :: nat
  summary_logsDownloaded :: nat
  summary_downloadsFailed :: nat
  summary_failedDownloads :: "(string \<times> string) list"

datatype fileContent =
    LogText string
  | MetadataJson DebugLog "LogMatch list"
  | SummaryJson DownloadSummary

text \<open>
  What lies outside the program is a parameter: the answers of the remote API to a query
  string and to a body request (\<open>Inl\<close> when the HTTP call fails), whether \<open>fs.mkdirSync\<close>
  and \<open>fs.writeFile\<close> fail on a path, and the library functions \<open>moment(..).format\<close>,
  \<open>path.join\<close> and \<open>path.dirname\<close>, and \<open>FileUtils.formatBytes\<close>, which computes in floating point.
\<close>

record env =
  toolingQuery :: "string \<Rightarrow> error + DebugLog list"
  apexLogBody :: "string \<Rightarrow> error + string"
  mkdirError :: "string \<Rightarrow> error option"
  writeFileError :: "string \<Rightarrow> string option"
  momentFormat :: "string \<Rightarrow> string"
  pathJoin :: "string \<Rightarrow> string \<Rightarrow> string"
  pathDirname :: "string \<Rightarrow> string"
  formatBytes :: "int \<Rightarrow> string"

text \<open>
  The effects of a run, in order: the HTTP requests issued and the fixed delays taken, and
  the state of the file system (directories present, files written). Console output is
  not recorded.
\<close>

datatype event =
    HttpQuery string
  | HttpBody string
  | Sleep nat

record world =
  trace :: "event list"
  directories :: "string list"
  files :: "(string \<times> fileContent) list"

definition emit :: "event \<Rightarrow> world \<Rightarrow> world" where
  "emit e w = w\<lparr>trace := trace w @ [e]\<rparr>"

definition selectFrom :: string where
  "selectFrom = ''SELECT Id, LogUserId, LogLength, LastModifiedDate, Request, Operation, Application, Status, DurationMilliseconds, StartTime, Location FROM ApexLog''"

text \<open>An optional string is truthy when it is present and not empty.\<close>

fun truthy :: "string option \<Rightarrow> bool" where
  "truthy None = False"
| "truthy (Some s) = (s \<noteq> [])"

fun strOf :: "string option \<Rightarrow> string" where
  "strOf None = ''undefined''"
| "strOf (Some s) = s"

text \<open>A parameter declared \<open>limit: number = 100\<close>: \<open>None\<close> is the omitted argument.\<close>

fun limitOrDefault :: "int option \<Rightarrow> int" where
  "limitOrDefault None = 100"
| "limitOrDefault (Some n) = n"

fun joinWith :: "string \<Rightarrow> string list \<Rightarrow> string" where
  "joinWith sep [] = []"
| "joinWith sep [x] = x"
| "joinWith sep (x # xs) = x @ sep @ joinWith sep xs"

definition dateWhereClause :: "string option \<Rightarrow> string option \<Rightarrow> string" where
  "dateWhereClause dateFrom dateTo =
     (if truthy dateFrom \<or> truthy dateTo
      then '' WHERE '' @ joinWith '' AND ''
             ((if truthy dateFrom then [''LastModifiedDate >= '' @ strOf dateFrom] else []) @
              (if truthy dateTo then [''LastModifiedDate <= '' @ strOf dateTo] else []))
      else [])"

definition userWhereClause :: "string \<Rightarrow> string" where
  "userWhereClause userId = '' WHERE LogUserId = '' @ [CHR 0x27] @ userId @ [CHR 0x27]"

text \<open>The query of the three single-page fetches: the limit goes into the text as given.\<close>

definition limitQuery :: "string \<Rightarrow> int \<Rightarrow> string" where
  "limitQuery whereClause limit =
     selectFrom @ whereClause @ '' ORDER BY LastModifiedDate DESC LIMIT '' @ numberToString limit"

definition getDebugLogs :: "env \<Rightarrow> int option \<Rightarrow> world \<Rightarrow> (error + DebugLog list) \<times> world" where
  "getDebugLogs env limit w =
     (let q = limitQuery [] (limitOrDefault limit); w1 = emit (HttpQuery q) w
      in case toolingQuery env q of
           Inr records \<Rightarrow> (Inr records, w1)
         | Inl e \<Rightarrow> (Inl (Error (''Failed to retrieve debug logs: '' @ errorToString e)), w1))"

definition getDebugLogBody :: "env \<Rightarrow> string \<Rightarrow> world \<Rightarrow> (error + string) \<times> world" where
  "getDebugLogBody env logId w =
     (let w1 = emit (HttpBody logId) w
      in case apexLogBody env logId of
           Inr body \<Rightarrow> (Inr body, w1)
         | Inl e \<Rightarrow> (Inl (Error (''Failed to retrieve debug log body for ID '' @ logId @ '': ''
                                     @ errorToString e)), w1))"

definition getDebugLogsByDateRange ::
  "env \<Rightarrow> string option \<Rightarrow> string option \<Rightarrow> int option \<Rightarrow> world \<Rightarrow> (error + DebugLog list) \<times> world" where
  "getDebugLogsByDateRange env dateFrom dateTo limit w =
     (let whereClause = dateWhereClause dateFrom dateTo;
          q = limitQuery whereClause (limitOrDefault limit); w1 = emit (HttpQuery q) w
      in case toolingQuery env q of
           Inr records \<Rightarrow> (Inr records, w1)
         | Inl e \<Rightarrow> (Inl (Error (''Failed to retrieve debug logs by date range: ''
                                     @ errorToString e)), w1))"

definition getDebugLogsByUser :: "env \<Rightarrow> string \<Rightarrow> int option \<Rightarrow> world \<Rightarrow> (error + DebugLog list) \<times> world" where
  "getDebugLogsByUser env userId limit w =
     (let q = limitQuery (userWhereClause userId) (limitOrDefault limit); w1 = emit (HttpQuery q) w
      in case toolingQuery env q of
           Inr records \<Rightarrow> (Inr records, w1)
         | Inl e \<Rightarrow> (Inl (Error (''Failed to retrieve debug logs for user '' @ userId @ '': ''
                                     @ errorToString e)), w1))"

subsection \<open>\<open>getDebugLogBodies\<close>\<close>

text \<open>
  \<open>batch.map(async (logId) => { try .. catch .. })\<close> followed by \<open>Promise.all\<close>: the
  requests of a group are issued in the order of the group, and each failure is caught
  into a \<open>null\<close> body (\<open>None\<close>).
\<close>

fun batchPromises :: "env \<Rightarrow> string list \<Rightarrow> world \<Rightarrow> (string \<times> string option) list \<times> world" where
  "batchPromises env [] w = ([], w)"
| "batchPromises env (logId # rest) w =
     (case getDebugLogBody env logId w of
        (Inr body, w1) \<Rightarrow>
          (case batchPromises env rest w1 of (rs, w2) \<Rightarrow> ((logId, Some body) # rs, w2))
      | (Inl e, w1) \<Rightarrow>
          (case batchPromises env rest w1 of (rs, w2) \<Rightarrow> ((logId, None) # rs, w2)))"

text \<open>\<open>batchResults.forEach(..)\<close>: only the bodies that are not \<open>null\<close> are stored.\<close>

fun storeResults :: "(string \<times> string option) list \<Rightarrow> (string \<rightharpoonup> string) \<Rightarrow> (string \<rightharpoonup> string)" where
  "storeResults [] results = results"
| "storeResults ((logId, body) # rest) results =
     storeResults rest (case body of Some b \<Rightarrow> results(logId \<mapsto> b) | None \<Rightarrow> results)"

definition bodiesBatchSize :: nat where
  "bodiesBatchSize = 10"

function getDebugLogBodies_loop ::
  "env \<Rightarrow> string list \<Rightarrow> nat \<Rightarrow> (string \<rightharpoonup> string) \<Rightarrow> world \<Rightarrow> (string \<rightharpoonup> string) \<times> world" where
  "getDebugLogBodies_loop env logIds i results w =
     (if i < length logIds
      then (let batch = take bodiesBatchSize (drop i logIds)
            in case batchPromises env batch w of
                 (batchResults, w1) \<Rightarrow>
                   getDebugLogBodies_loop env logIds (i + bodiesBatchSize)
                     (storeResults batchResults results)
                     (if i + bodiesBatchSize < length logIds then emit (Sleep 100) w1 else w1))
      else (results, w))"
  by pat_completeness auto
termination
  by (relation "measure (\<lambda>(env, logIds, i, results, w). length logIds - i)")
     (auto simp: bodiesBatchSize_def)

declare getDebugLogBodies_loop.simps [simp del]

definition getDebugLogBodies :: "env \<Rightarrow> string list \<Rightarrow> world \<Rightarrow> (string \<rightharpoonup> string) \<times> world" where
  "getDebugLogBodies env logIds w = getDebugLogBodies_loop env logIds 0 Map.empty w"

text \<open>The body the remote store gives for an id, when the request for it succeeds.\<close>

definition bodyOf :: "env \<Rightarrow> string \<Rightarrow> string option" where
  "bodyOf env i = (case apexLogBody env i of Inr body \<Rightarrow> Some body | Inl e \<Rightarrow> None)"

text \<open>Whether an event is the request of a log body.\<close>

fun isBodyRequest :: "event \<Rightarrow> bool" where
  "isBodyRequest (HttpBody i) = True"
| "isBodyRequest (HttpQuery q) = False"
| "isBodyRequest (Sleep ms) = False"

text \<open>
  A step from one world to another that leaves the file system as it is and requests no
  log body.
\<close>

definition quiet :: "world \<Rightarrow> world \<Rightarrow> bool" where
  "quiet w w' = (directories w' = directories w \<and> files w' = files w
      \<and> filter isBodyRequest (trace w') = filter isBodyRequest (trace w))"

text \<open>
  The consecutive groups of at most \<open>k\<close> elements of a list, and the requests of a list of
  groups with the fixed delay between one group and the next: the terms in which the
  batching is stated.
\<close>

function groupsOf :: "nat \<Rightarrow> 'a list \<Rightarrow> 'a list list" where
  "groupsOf k xs = (if k = 0 \<or> xs = [] then [] else take k xs # groupsOf k (drop k xs))"
  by pat_completeness auto
termination
  by (relation "measure (\<lambda>(k, xs). length xs)") auto

declare groupsOf.simps [simp del]

fun withDelays :: "event list list \<Rightarrow> event list" where
  "withDelays [] = []"
| "withDelays [g] = g"
| "withDelays (g # gs) = g @ Sleep 100 # withDelays gs"

subsection \<open>\<open>getAllDebugLogs\<close>, \<open>getAllDebugLogsByUser\<close>, \<open>getAllDebugLogsByDateRange\<close>\<close>

text \<open>
  The three functions run the same loop and differ in the \<open>WHERE\<close> clause of the query
  only, so the loop is written once, with the clause as an argument. \<open>maxLogs\<close> is an
  optional integer; \<open>!maxLogs\<close> holds when it is absent or zero.
\<close>

record fetchState =
  allLogs :: "DebugLog list"
  offset :: nat
  hasMore :: bool

definition batchSize :: int where
  "batchSize = 200"

fun unlimited :: "int option \<Rightarrow> bool" where
  "unlimited None = True"
| "unlimited (Some m) = (m = 0)"

text \<open>The loop condition: \<open>hasMore && (!maxLogs || allLogs.length < maxLogs)\<close>.\<close>

definition loopCondition :: "int option \<Rightarrow> fetchState \<Rightarrow> bool" where
  "loopCondition maxLogs s =
     (hasMore s \<and> (unlimited maxLogs \<or> int (length (allLogs s)) < the maxLogs))"

definition currentBatchSize :: "int option \<Rightarrow> fetchState \<Rightarrow> int" where
  "currentBatchSize maxLogs s =
     (let remainingLogs = (if unlimited maxLogs then batchSize
                           else the maxLogs - int (length (allLogs s)))
      in min batchSize remainingLogs)"

definition pageQuery :: "string \<Rightarrow> int \<Rightarrow> nat \<Rightarrow> string" where
  "pageQuery whereClause limit off =
     selectFrom @ whereClause @ '' ORDER BY LastModifiedDate DESC LIMIT '' @ numberToString limit
       @ '' OFFSET '' @ numberToString (int off)"

text \<open>
  One pass through the loop body. The state is \<open>None\<close> when the request fails: the
  \<open>catch\<close> block leaves the loop with \<open>break\<close>.
\<close>

definition loopBody :: "env \<Rightarrow> string \<Rightarrow> int option \<Rightarrow> fetchState \<Rightarrow> world \<Rightarrow> fetchState option \<times> world" where
  "loopBody env whereClause maxLogs s w =
     (let q = pageQuery whereClause (currentBatchSize maxLogs s) (offset s);
          w1 = emit (HttpQuery q) w
      in case toolingQuery env q of
           Inl e \<Rightarrow> (None, w1)
         | Inr batch \<Rightarrow>
             (let more = (int (length batch) = currentBatchSize maxLogs s)
              in (Some \<lparr>allLogs = allLogs s @ batch,
                         offset = offset s + length batch,
                         hasMore = more\<rparr>,
                  if more then emit (Sleep 100) w1 else w1)))"

text \<open>The \<open>while\<close> loop; it has no bound of its own, so not returning is the value \<open>None\<close>.\<close>

partial_function (option) fetchLoop ::
  "env \<Rightarrow> string \<Rightarrow> int option \<Rightarrow> fetchState \<Rightarrow> world \<Rightarrow> (DebugLog list \<times> world) option" where
  "fetchLoop env whereClause maxLogs s w =
     (if loopCondition maxLogs s
      then (case loopBody env whereClause maxLogs s w of
              (Some s', w') \<Rightarrow> fetchLoop env whereClause maxLogs s' w'
            | (None, w') \<Rightarrow> Some (allLogs s, w'))
      else Some (allLogs s, w))"

definition initialState :: fetchState where
  "initialState = \<lparr>allLogs = [], offset = 0, hasMore = True\<rparr>"

definition getAllDebugLogs :: "env \<Rightarrow> int option \<Rightarrow> world \<Rightarrow> (DebugLog list \<times> world) option" where
  "getAllDebugLogs env maxLogs w = fetchLoop env [] maxLogs initialState w"

definition getAllDebugLogsByUser :: "env \<Rightarrow> string \<Rightarrow> int option \<Rightarrow> world \<Rightarrow> (DebugLog list \<times> world) option" where
  "getAllDebugLogsByUser env userId maxLogs w =
     fetchLoop env (userWhereClause userId) maxLogs initialState w"

definition getAllDebugLogsByDateRange ::
  "env \<Rightarrow> string option \<Rightarrow> string option \<Rightarrow> int option \<Rightarrow> world \<Rightarrow> (DebugLog list \<times> world) option" where
  "getAllDebugLogsByDateRange env dateFrom dateTo maxLogs w =
     fetchLoop env (dateWhereClause dateFrom dateTo) maxLogs initialState w"

text \<open>
  The three paged fetches as one operation on a filter, \<open>fetchAllLogs(filter, maxLogs?)\<close> in
  the words of the specification, and likewise the three single-page fetches, \<open>fetchLogs\<close>.
\<close>

datatype logFilter = NoFilter | ByUser string | ByDateRange "string option" "string option"

fun filterWhereClause :: "logFilter \<Rightarrow> string" where
  "filterWhereClause NoFilter = []"
| "filterWhereClause (ByUser u) = userWhereClause u"
| "filterWhereClause (ByDateRange df dt) = dateWhereClause df dt"

fun fetchAllLogs :: "env \<Rightarrow> logFilter \<Rightarrow> int option \<Rightarrow> world \<Rightarrow> (DebugLog list \<times> world) option" where
  "fetchAllLogs env NoFilter maxLogs w = getAllDebugLogs env maxLogs w"
| "fetchAllLogs env (ByUser u) maxLogs w = getAllDebugLogsByUser env u maxLogs w"
| "fetchAllLogs env (ByDateRange df dt) maxLogs w = getAllDebugLogsByDateRange env df dt maxLogs w"

fun fetchLogs :: "env \<Rightarrow> logFilter \<Rightarrow> int option \<Rightarrow> world \<Rightarrow> (error + DebugLog list) \<times> world" where
  "fetchLogs env NoFilter limit w = getDebugLogs env limit w"
| "fetchLogs env (ByUser u) limit w = getDebugLogsByUser env u limit w"
| "fetchLogs env (ByDateRange df dt) limit w = getDebugLogsByDateRange env df dt limit w"

text \<open>
  The state at the head of the loop after \<open>n\<close> full passes, when the loop gets that far
  (a means of speaking about every iteration; the program is \<open>fetchLoop\<close>).
\<close>

fun afterPasses :: "env \<Rightarrow> string \<Rightarrow> int option \<Rightarrow> nat \<Rightarrow> fetchState \<Rightarrow> world \<Rightarrow> (fetchState \<times> world) option" where
  "afterPasses env whereClause maxLogs 0 s w = Some (s, w)"
| "afterPasses env whereClause maxLogs (Suc n) s w =
     (if loopCondition maxLogs s
      then (case loopBody env whereClause maxLogs s w of
              (Some s', w') \<Rightarrow> afterPasses env whereClause maxLogs n s' w'
            | (None, w') \<Rightarrow> None)
      else None)"

section \<open>Search pipeline (\<open>LogSearcher\<close>)\<close>

record SearchOptions =
  searchText :: string
  caseSensitive :: "bool option"
  maxResults :: "int option"
  dateFrom :: "string option"
  dateTo :: "string option"
  userId :: "string option"

record SearchResult =
  log :: DebugLog
  matches :: "LogMatch list"

text \<open>\<open>options.maxResults || 100\<close>.\<close>

fun maxResultsOr100 :: "int option \<Rightarrow> int" where
  "maxResultsOr100 None = 100"
| "maxResultsOr100 (Some n) = (if n = 0 then 100 else n)"

text \<open>The third parameter of \<open>searchInLogBody\<close> is declared \<open>caseSensitive: boolean = false\<close>.\<close>

fun caseSensitiveOrFalse :: "bool option \<Rightarrow> bool" where
  "caseSensitiveOrFalse None = False"
| "caseSensitiveOrFalse (Some b) = b"

text \<open>
  The choice of the fetch by the filters of the request, as \<open>searchLogs\<close> and
  \<open>searchLogsWithStats\<close> both write it; an error of the fetch is not caught.
\<close>

definition fetchByFilters :: "env \<Rightarrow> SearchOptions \<Rightarrow> world \<Rightarrow> (error + DebugLog list) \<times> world" where
  "fetchByFilters env options w =
     (if truthy (userId options)
      then getDebugLogsByUser env (strOf (userId options)) (Some (maxResultsOr100 (maxResults options))) w
      else if truthy (dateFrom options) \<or> truthy (dateTo options)
      then getDebugLogsByDateRange env (dateFrom options) (dateTo options)
             (Some (maxResultsOr100 (maxResults options))) w
      else getDebugLogs env (Some (maxResultsOr100 (maxResults options))) w)"

text \<open>The same choice in \<open>searchAllLogsWithStats\<close>, among the paged fetches.\<close>

definition fetchAllByFilters :: "env \<Rightarrow> SearchOptions \<Rightarrow> world \<Rightarrow> (DebugLog list \<times> world) option" where
  "fetchAllByFilters env options w =
     (if truthy (userId options)
      then getAllDebugLogsByUser env (strOf (userId options)) (maxResults options) w
      else if truthy (dateFrom options) \<or> truthy (dateTo options)
      then getAllDebugLogsByDateRange env (dateFrom options) (dateTo options) (maxResults options) w
      else getAllDebugLogs env (maxResults options) w)"

text \<open>
  \<open>for (const log of logs) { try { .. } catch { continue } }\<close>, the loop of the three
  search functions.
\<close>

fun searchEach :: "env \<Rightarrow> SearchOptions \<Rightarrow> DebugLog list \<Rightarrow> SearchResult list \<Rightarrow> world \<Rightarrow> SearchResult list \<times> world" where
  "searchEach env options [] results w = (results, w)"
| "searchEach env options (l # logs) results w =
     (case getDebugLogBody env (LogId l) w of
        (Inr logBody, w1) \<Rightarrow>
          (let ms = searchInLogBody logBody (searchText options)
                      (caseSensitiveOrFalse (caseSensitive options))
           in searchEach env options logs
                (if length ms > 0 then results @ [\<lparr>log = l, matches = ms\<rparr>] else results) w1)
      | (Inl e, w1) \<Rightarrow> searchEach env options logs results w1)"

text \<open>
  What one record adds to the results: nothing when its body cannot be fetched or has no
  match, and otherwise the record with its matches.
\<close>

definition resultOf :: "env \<Rightarrow> SearchOptions \<Rightarrow> DebugLog \<Rightarrow> SearchResult list" where
  "resultOf env options l =
     (case apexLogBody env (LogId l) of
        Inl e \<Rightarrow> []
      | Inr logBody \<Rightarrow>
          (let ms = searchInLogBody logBody (searchText options)
                      (caseSensitiveOrFalse (caseSensitive options))
           in if ms = [] then [] else [\<lparr>log = l, matches = ms\<rparr>]))"

definition searchLogs :: "env \<Rightarrow> SearchOptions \<Rightarrow> world \<Rightarrow> (error + SearchResult list) \<times> world" where
  "searchLogs env options w =
     (case fetchByFilters env options w of
        (Inl e, w1) \<Rightarrow> (Inl e, w1)
      | (Inr logs, w1) \<Rightarrow>
          (case searchEach env options logs [] w1 of (results, w2) \<Rightarrow> (Inr results, w2)))"

text \<open>The pair returned is \<open>{ results, totalLogsSearched }\<close>.\<close>

definition searchLogsWithStats ::
  "env \<Rightarrow> SearchOptions \<Rightarrow> world \<Rightarrow> (error + SearchResult list \<times> nat) \<times> world" where
  "searchLogsWithStats env options w =
     (case fetchByFilters env options w of
        (Inl e, w1) \<Rightarrow> (Inl e, w1)
      | (Inr logs, w1) \<Rightarrow>
          (case searchEach env options logs [] w1 of
             (results, w2) \<Rightarrow> (Inr (results, length logs), w2)))"

definition searchAllLogsWithStats ::
  "env \<Rightarrow> SearchOptions \<Rightarrow> world \<Rightarrow> ((error + SearchResult list \<times> nat) \<times> world) option" where
  "searchAllLogsWithStats env options w =
     (case fetchAllByFilters env options w of
        None \<Rightarrow> None
      | Some (logs, w1) \<Rightarrow>
          (case searchEach env options logs [] w1 of
             (results, w2) \<Rightarrow> Some (Inr (results, length logs), w2)))"

section \<open>File persistence (\<open>FileUtils\<close>)\<close>

definition existsSync :: "world \<Rightarrow> string \<Rightarrow> bool" where
  "existsSync w p = (p \<in> set (directories w) \<or> p \<in> set (map fst (files w)))"

definition ensureDirectoryExists :: "env \<Rightarrow> string \<Rightarrow> world \<Rightarrow> (error + unit) \<times> world" where
  "ensureDirectoryExists env dirPath w =
     (if \<not> existsSync w dirPath
      then (case mkdirError env dirPath of
              Some e \<Rightarrow> (Inl e, w)
            | None \<Rightarrow> (Inr (), w\<lparr>directories := directories w @ [dirPath]\<rparr>))
      else (Inr (), w))"

definition isAlnum :: "char \<Rightarrow> bool" where
  "isAlnum c =
     (let n = (of_char c :: nat)
      in (97 \<le> n \<and> n \<le> 122) \<or> (65 \<le> n \<and> n \<le> 90) \<or> (48 \<le> n \<and> n \<le> 57))"

definition generateLogFileName :: "env \<Rightarrow> DebugLog \<Rightarrow> string \<Rightarrow> string" where
  "generateLogFileName env l extension =
     (let timestamp = momentFormat env (LastModifiedDate l);
          operation = map (\<lambda>c. if isAlnum c then c else CHR ''_'') (Operation l);
          logId = take 8 (LogId l)
      in timestamp @ ''_'' @ operation @ ''_'' @ logId @ extension)"

definition generateMetadataFileName :: "env \<Rightarrow> DebugLog \<Rightarrow> string" where
  "generateMetadataFileName env l = generateLogFileName env l ''.json''"

definition saveLogToFile :: "env \<Rightarrow> string \<Rightarrow> string \<Rightarrow> world \<Rightarrow> (error + unit) \<times> world" where
  "saveLogToFile env filePath content w =
     (case writeFileError env filePath of
        Some msg \<Rightarrow> (Inl (Error (''Failed to save log to '' @ filePath @ '': '' @ msg)), w)
      | None \<Rightarrow> (Inr (), w\<lparr>files := files w @ [(filePath, LogText content)]\<rparr>))"

definition saveMetadataToFile ::
  "env \<Rightarrow> string \<Rightarrow> DebugLog \<Rightarrow> LogMatch list \<Rightarrow> world \<Rightarrow> (error + unit) \<times> world" where
  "saveMetadataToFile env filePath l ms w =
     (case writeFileError env filePath of
        Some msg \<Rightarrow> (Inl (Error (''Failed to save metadata to '' @ filePath @ '': '' @ msg)), w)
      | None \<Rightarrow> (Inr (), w\<lparr>files := files w @ [(filePath, MetadataJson l ms)]\<rparr>))"

definition createDownloadSummary ::
  "env \<Rightarrow> string \<Rightarrow> string \<Rightarrow> nat \<Rightarrow> nat \<Rightarrow> nat \<Rightarrow> string list \<Rightarrow> world \<Rightarrow> (error + unit) \<times> world" where
  "createDownloadSummary env summaryPath text totalLogs matchingLogs downloadedLogs failedDownloads w =
     (let summary = \<lparr>summary_searchText = text,
                      summary_totalLogsSearched = totalLogs,
                      summary_logsWithMatches = matchingLogs,
                      summary_logsDownloaded = downloadedLogs,
                      summary_downloadsFailed = length failedDownloads,
                      summary_failedDownloads = map (\<lambda>logId. (logId, ''API Error'')) failedDownloads\<rparr>
      in case writeFileError env summaryPath of
           Some msg \<Rightarrow> (Inl (Error (''Failed to save download summary: '' @ msg)), w)
         | None \<Rightarrow> (Inr (), w\<lparr>files := files w @ [(summaryPath, SummaryJson summary)]\<rparr>))"

definition getApproximateFileSize :: "int \<Rightarrow> int" where
  "getApproximateFileSize logLength = logLength + 1024"

text \<open>The pair returned is \<open>{ hasSpace, estimatedSize }\<close>.\<close>

definition checkDiskSpace :: "env \<Rightarrow> DebugLog list \<Rightarrow> string \<Rightarrow> world \<Rightarrow> bool \<times> int" where
  "checkDiskSpace env logs outputDir w =
     (let estimatedSize = foldl (\<lambda>total l. total + getApproximateFileSize (LogLength l)) 0 logs;
          hasSpace = (existsSync w (pathDirname env outputDir) \<or> True)
      in (hasSpace, estimatedSize))"

section \<open>Download pipeline (\<open>LogSearcher\<close>)\<close>

text \<open>The flags of \<open>DownloadOptions\<close> are optional in the source; an absent flag is \<open>False\<close>.\<close>

record DownloadOptions =
  outputDir :: string
  includeMetadata :: bool
  createSummary :: bool
  verbose :: bool

record DownloadResult =
  result_searchText :: string
  totalLogsSearched :: nat
  matchingLogs :: nat
  downloadedLogs :: nat
  failedDownloads :: "string list"
  downloadPath :: string
  estimatedSize :: int

text \<open>\<open>!logBody\<close> for the result of \<open>logBodies.get(id)\<close>: no entry, or an empty body.\<close>

fun noBody :: "string option \<Rightarrow> bool" where
  "noBody None = True"
| "noBody (Some b) = (b = [])"

text \<open>
  The save loop of \<open>searchAndDownloadLogs\<close>, with the lists \<open>downloadedLogs\<close> and
  \<open>failedDownloads\<close> it appends to; an error of either write is caught.
\<close>

fun saveResults ::
  "env \<Rightarrow> DownloadOptions \<Rightarrow> (string \<rightharpoonup> string) \<Rightarrow> SearchResult list \<Rightarrow> string list \<Rightarrow> string list
     \<Rightarrow> world \<Rightarrow> (string list \<times> string list) \<times> world" where
  "saveResults env dl logBodies [] downloaded failed w = ((downloaded, failed), w)"
| "saveResults env dl logBodies (r # rest) downloaded failed w =
     (let logBody = logBodies (LogId (log r))
      in if noBody logBody
         then saveResults env dl logBodies rest downloaded (failed @ [LogId (log r)]) w
         else (let logFileName = generateLogFileName env (log r) ''.log'';
                   metadataFileName = generateMetadataFileName env (log r);
                   logFilePath = pathJoin env (outputDir dl) logFileName;
                   metadataFilePath = pathJoin env (outputDir dl) metadataFileName
               in case saveLogToFile env logFilePath (the logBody) w of
                    (Inl e, w1) \<Rightarrow>
                      saveResults env dl logBodies rest downloaded (failed @ [LogId (log r)]) w1
                  | (Inr u, w1) \<Rightarrow>
                      (if includeMetadata dl
                       then (case saveMetadataToFile env metadataFilePath (log r) (matches r) w1 of
                               (Inl e, w2) \<Rightarrow>
                                 saveResults env dl logBodies rest downloaded
                                   (failed @ [LogId (log r)]) w2
                             | (Inr u', w2) \<Rightarrow>
                                 saveResults env dl logBodies rest
                                   (downloaded @ [LogId (log r)]) failed w2)
                       else saveResults env dl logBodies rest
                              (downloaded @ [LogId (log r)]) failed w1)))"

text \<open>What \<open>searchAndDownloadLogs\<close> does with the outcome of the search.\<close>

definition downloadSearchResults ::
  "env \<Rightarrow> SearchOptions \<Rightarrow> DownloadOptions \<Rightarrow> SearchResult list \<Rightarrow> nat \<Rightarrow> world
     \<Rightarrow> (error + DownloadResult) \<times> world" where
  "downloadSearchResults env options dl searchResults searched w =
     (if length searchResults = 0
      then (Inr \<lparr>result_searchText = searchText options, totalLogsSearched = searched,
                 matchingLogs = 0, downloadedLogs = 0, failedDownloads = [],
                 downloadPath = outputDir dl, estimatedSize = 0\<rparr>, w)
      else (let logs = map log searchResults
            in case checkDiskSpace env logs (outputDir dl) w of
                 (hasSpace, estimated) \<Rightarrow>
                   if \<not> hasSpace
                   then (Inl (Error (''Insufficient disk space. Estimated size needed: ''
                                      @ formatBytes env estimated)), w)
                   else (case ensureDirectoryExists env (outputDir dl) w of
                           (Inl e, w1) \<Rightarrow> (Inl e, w1)
                         | (Inr u, w1) \<Rightarrow>
                             (let logIds = map LogId logs
                              in case getDebugLogBodies env logIds w1 of
                                   (logBodies, w2) \<Rightarrow>
                                     (case saveResults env dl logBodies searchResults [] [] w2 of
                                        ((downloaded, failed), w3) \<Rightarrow>
                                          (let result =
                                                 \<lparr>result_searchText = searchText options,
                                                  totalLogsSearched = searched,
                                                  matchingLogs = length searchResults,
                                                  downloadedLogs = length downloaded,
                                                  failedDownloads = failed,
                                                  downloadPath = outputDir dl,
                                                  estimatedSize = estimated\<rparr>
                                           in if createSummary dl
                                              then (case createDownloadSummary env
                                                           (pathJoin env (outputDir dl) ''download-summary.json'')
                                                           (searchText options) (length logs)
                                                           (length searchResults) (length downloaded)
                                                           failed w3 of
                                                      (Inl e, w4) \<Rightarrow> (Inl e, w4)
                                                    | (Inr u', w4) \<Rightarrow> (Inr result, w4))
                                              else (Inr result, w3)))))))"

text \<open>
  The first step, \<open>useAllLogs ? searchAllLogsWithStats(..) : searchLogsWithStats(..)\<close>, and the
  function. \<open>None\<close> is a search over all logs that does not return. An error of the search
  is returned as it is.
\<close>

definition searchPhase ::
  "env \<Rightarrow> SearchOptions \<Rightarrow> bool \<Rightarrow> world \<Rightarrow> ((error + SearchResult list \<times> nat) \<times> world) option" where
  "searchPhase env options useAllLogs w =
     (if useAllLogs then searchAllLogsWithStats env options w
      else Some (searchLogsWithStats env options w))"

definition searchAndDownloadLogs ::
  "env \<Rightarrow> SearchOptions \<Rightarrow> DownloadOptions \<Rightarrow> bool \<Rightarrow> world
     \<Rightarrow> ((error + DownloadResult) \<times> world) option" where
  "searchAndDownloadLogs env options dl useAllLogs w =
     (case searchPhase env options useAllLogs w of
        None \<Rightarrow> None
      | Some (Inl e, w1) \<Rightarrow> Some (Inl e, w1)
      | Some (Inr (searchResults, searched), w1) \<Rightarrow>
          Some (downloadSearchResults env options dl searchResults searched w1))"

subsection \<open>\<open>downloadLogsByIds\<close>\<close>

text \<open>
  The first loop: for every requested id, one fetch of the 1000 most recent records and a
  search for the id among them; a failing fetch is caught and the id has no metadata.
\<close>

fun recoverMetadata :: "env \<Rightarrow> string list \<Rightarrow> DebugLog list \<Rightarrow> world \<Rightarrow> DebugLog list \<times> world" where
  "recoverMetadata env [] found w = (found, w)"
| "recoverMetadata env (logId # rest) found w =
     (case getDebugLogs env (Some 1000) w of
        (Inr logs, w1) \<Rightarrow>
          recoverMetadata env rest
            (case find (\<lambda>l. LogId l = logId) logs of
               Some l \<Rightarrow> found @ [l]
             | None \<Rightarrow> found) w1
      | (Inl e, w1) \<Rightarrow> recoverMetadata env rest found w1)"

text \<open>
  The records that loop finds: for each requested id in turn, the first record with that id
  in the answer to the query for the 1000 most recent records, if the query succeeds and has
  one.
\<close>

definition recoveredLogs :: "env \<Rightarrow> string list \<Rightarrow> DebugLog list" where
  "recoveredLogs env logIds =
     concat (map (\<lambda>i. case toolingQuery env (limitQuery [] 1000) of
                         Inl e \<Rightarrow> []
                       | Inr logs \<Rightarrow> (case find (\<lambda>l. LogId l = i) logs of
                                        Some l \<Rightarrow> [l]
                                      | None \<Rightarrow> [])) logIds)"

text \<open>The save loop of \<open>downloadLogsByIds\<close>: it runs over the records with metadata.\<close>

fun saveLogs ::
  "env \<Rightarrow> DownloadOptions \<Rightarrow> (string \<rightharpoonup> string) \<Rightarrow> DebugLog list \<Rightarrow> string list \<Rightarrow> string list
     \<Rightarrow> world \<Rightarrow> (string list \<times> string list) \<times> world" where
  "saveLogs env dl logBodies [] downloaded failed w = ((downloaded, failed), w)"
| "saveLogs env dl logBodies (l # rest) downloaded failed w =
     (let logBody = logBodies (LogId l)
      in if noBody logBody
         then saveLogs env dl logBodies rest downloaded (failed @ [LogId l]) w
         else (let logFileName = generateLogFileName env l ''.log'';
                   logFilePath = pathJoin env (outputDir dl) logFileName
               in case saveLogToFile env logFilePath (the logBody) w of
                    (Inl e, w1) \<Rightarrow> saveLogs env dl logBodies rest downloaded (failed @ [LogId l]) w1
                  | (Inr u, w1) \<Rightarrow>
                      (if includeMetadata dl
                       then (let metadataFileName = generateMetadataFileName env l;
                                 metadataFilePath = pathJoin env (outputDir dl) metadataFileName
                             in case saveMetadataToFile env metadataFilePath l [] w1 of
                                  (Inl e, w2) \<Rightarrow>
                                    saveLogs env dl logBodies rest downloaded (failed @ [LogId l]) w2
                                | (Inr u', w2) \<Rightarrow>
                                    saveLogs env dl logBodies rest (downloaded @ [LogId l]) failed w2)
                       else saveLogs env dl logBodies rest (downloaded @ [LogId l]) failed w1)))"

text \<open>
  The files that loop may write for a record: its body, if the store has one, under the
  log file name, and its metadata under the metadata file name.
\<close>

definition filesOf :: "env \<Rightarrow> DownloadOptions \<Rightarrow> DebugLog \<Rightarrow> (string \<times> fileContent) set" where
  "filesOf env dl l =
     {(pathJoin env (outputDir dl) (generateLogFileName env l ''.log''), LogText b) | b.
        bodyOf env (LogId l) = Some b}
     \<union> {(pathJoin env (outputDir dl) (generateMetadataFileName env l), MetadataJson l [])}"

definition downloadLogsByIds ::
  "env \<Rightarrow> string list \<Rightarrow> DownloadOptions \<Rightarrow> world \<Rightarrow> (error + DownloadResult) \<times> world" where
  "downloadLogsByIds env logIds dl w =
     (case recoverMetadata env logIds [] w of
        (found, w1) \<Rightarrow>
          (case checkDiskSpace env found (outputDir dl) w1 of
             (hasSpace, estimated) \<Rightarrow>
               if \<not> hasSpace
               then (Inl (Error (''Insufficient disk space. Estimated size needed: ''
                                  @ formatBytes env estimated)), w1)
               else (case ensureDirectoryExists env (outputDir dl) w1 of
                       (Inl e, w2) \<Rightarrow> (Inl e, w2)
                     | (Inr u, w2) \<Rightarrow>
                         (case getDebugLogBodies env logIds w2 of
                            (logBodies, w3) \<Rightarrow>
                              (case saveLogs env dl logBodies found [] [] w3 of
                                 ((downloaded, failed), w4) \<Rightarrow>
                                   (Inr \<lparr>result_searchText = ''Direct download'',
                                         totalLogsSearched = length logIds,
                                         matchingLogs = length logIds,
                                         downloadedLogs = length downloaded,
                                         failedDownloads = failed,
                                         downloadPath = outputDir dl,
                                         estimatedSize = estimated\<rparr>, w4))))))"

section \<open>Sample data\<close>

text \<open>Concrete records, an empty world and environments, on which the theorems are run.\<close>

definition sampleLog :: "string \<Rightarrow> nat \<Rightarrow> DebugLog" where
  "sampleLog i n =
     \<lparr>LogId = i, LogUserId = ''005000000000001'', LogLength = int n,
      LastModifiedDate = ''2024-01-15T10:30:00.000+0000'', Request = ''API'',
      Operation = ''/apex/Page'', Application = ''Browser'', Status = ''Success'',
      DurationMilliseconds = 12, StartTime = ''2024-01-15T10:29:59.000+0000'',
      Location = ''Monitoring''\<rparr>"

definition emptyWorld :: world where
  "emptyWorld = \<lparr>trace = [], directories = [], files = []\<rparr>"

text \<open>An environment with the given remote answers, on a file system where nothing fails.\<close>

definition sampleEnv :: "(string \<Rightarrow> error + DebugLog list) \<Rightarrow> (string \<Rightarrow> error + string) \<Rightarrow> env" where
  "sampleEnv q b =
     \<lparr>toolingQuery = q, apexLogBody = b,
      mkdirError = (\<lambda>p. None), writeFileError = (\<lambda>p. None),
      momentFormat = (\<lambda>d. take 10 d), pathJoin = (\<lambda>d f. d @ ''/'' @ f),
      pathDirname = (\<lambda>p. ''.''), formatBytes = numberToString\<rparr>"

definition sampleOptions :: "string \<Rightarrow> SearchOptions" where
  "sampleOptions pat = \<lparr>searchText = pat, caseSensitive = None, maxResults = None,
                         dateFrom = None, dateTo = None, userId = None\<rparr>"

definition sampleDownload :: "bool \<Rightarrow> bool \<Rightarrow> DownloadOptions" where
  "sampleDownload meta summary =
     \<lparr>outputDir = ''out'', includeMetadata = meta, createSummary = summary, verbose = False\<rparr>"

section \<open>Properties of the text matcher\<close>

lemma str_includes_sublist: "str_includes s p = sublist p s"
  by (induction s) (auto simp: sublist_Cons_right)

lemma forEach_enumerate:
  "searchInLogBody_forEach all p cs index ls acc =
     acc @ map (\<lambda>(i, l). \<lparr>lineNumber = i + 1, line = trim l, context = getContext all (int i) 2\<rparr>)
                (filter (\<lambda>(i, l). str_includes (if cs then l else toLowerCase l) p)
                   (enumerate index ls))"
  by (induction ls arbitrary: index acc) (simp_all add: Let_def)

lemma searchInLogBody_enumerate:
  "searchInLogBody B P False =
     map (\<lambda>(i, l). \<lparr>lineNumber = i + 1, line = trim l, context = getContext (split_lf B) (int i) 2\<rparr>)
       (filter (\<lambda>(i, l). sublist (toLowerCase P) (toLowerCase l)) (enumerate 0 (split_lf B)))"
  by (simp add: searchInLogBody_def Let_def forEach_enumerate str_includes_sublist)

lemma lineNumbers_enumerate:
  "map lineNumber (searchInLogBody B P False) =
     map (\<lambda>(i, l). i + 1) (filter (\<lambda>(i, l). sublist (toLowerCase P) (toLowerCase l)) (enumerate 0 (split_lf B)))"
  by (simp add: searchInLogBody_enumerate split_def comp_def)

lemma sorted_fst_filter_enumerate:
  "sorted_wrt (<) (map (\<lambda>(i, l). i + 1) (filter Q (enumerate k xs)))"
proof -
  have "sorted_wrt (<) (map fst (enumerate k xs))" by simp
  then have "sorted_wrt (\<lambda>a b. fst a < fst b) (enumerate k xs)"
    by (simp only: sorted_wrt_map)
  then have "sorted_wrt (\<lambda>a b. fst a < fst b) (filter Q (enumerate k xs))"
    by (rule sorted_wrt_filter)
  then show ?thesis by (simp add: sorted_wrt_map split_def)
qed

lemma lineNumbers_set:
  "(n \<in> set (map lineNumber (searchInLogBody B P False))) =
     (1 \<le> n \<and> n \<le> length (split_lf B) \<and> sublist (toLowerCase P) (toLowerCase (split_lf B ! (n - 1))))"
  apply (simp add: lineNumbers_enumerate image_iff in_set_enumerate_eq split_def Bex_def)
  apply (rule iffI)
   apply auto[1]
  apply (rule exI[of _ "n - 1"]) 
  apply auto
  done

text \<open>
  Claim C1. A case-insensitive search returns, in the order of the lines, one match for
  each line of the body (split at line feeds) whose lower-cased text contains the
  lower-cased pattern as a contiguous piece, and nothing else: the result is the image of
  the matching (index, line) pairs of the numbered lines, a number occurs among the
  line numbers of the result exactly when it is the 1-based number of a matching line,
  and the line numbers are strictly increasing, hence without repetition.
\<close>

theorem searchInLogBody_case_insensitive: 
  "searchInLogBody B P False =
     map (\<lambda>(i, l). \<lparr>lineNumber = i + 1, line = trim l, context = getContext (split_lf B) (int i) 2\<rparr>)
       (filter (\<lambda>(i, l). sublist (toLowerCase P) (toLowerCase l)) (enumerate 0 (split_lf B)))
   \<and> (\<forall>n. (n \<in> set (map lineNumber (searchInLogBody B P False))) =
     (1 \<le> n \<and> n \<le> length (split_lf B) \<and> sublist (toLowerCase P) (toLowerCase (split_lf B ! (n - 1)))))
   \<and> sorted_wrt (<) (map lineNumber (searchInLogBody B P False))
   \<and> distinct (map lineNumber (searchInLogBody B P False))"
proof -
  have s: "sorted_wrt (<) (map lineNumber (searchInLogBody B P False))"
    unfolding lineNumbers_enumerate by (rule sorted_fst_filter_enumerate)
  then have d: "distinct (map lineNumber (searchInLogBody B P False))"
    using strict_sorted_iff by blast
  show ?thesis using s d searchInLogBody_enumerate lineNumbers_set by blast
qed


lemma getContext_loop_eq:
  "getContext_loop lines m e i ctx =
     ctx @ map (\<lambda>k. numberToString (k + 1) @ '': '' @ trim (lines ! nat k)) (filter (\<lambda>k. k \<noteq> m) [i..e])"
proof (induction lines m e i ctx rule: getContext_loop.induct)
  case (1 lines m e i ctx)
  show ?case
  proof (cases "i \<le> e")
    case True
    then show ?thesis
      using 1[OF True] by (subst getContext_loop.simps) (simp add: upto_rec1[of i e])
  next
    case False
    then show ?thesis by (subst getContext_loop.simps) simp
  qed
qed

lemma getContext_eq:
  "getContext lines m c =
     map (\<lambda>k. numberToString (k + 1) @ '': '' @ trim (lines ! nat k))
       (filter (\<lambda>k. k \<noteq> m) [max 0 (m - c)..min (int (length lines) - 1) (m + c)])"
  by (simp add: getContext_def Let_def getContext_loop_eq)

lemma length_filter_neq_upto:
  "length (filter (\<lambda>k. k \<noteq> m) [s..e]) = (if s \<le> m \<and> m \<le> e then nat (e - s) else nat (e - s + 1))"
proof (cases "s \<le> m \<and> m \<le> e")
  case True
  then have "[s..e] = [s..m - 1] @ m # [m + 1..e]"
    using upto_split3[of s m e] by simp
  moreover have "filter (\<lambda>k. k \<noteq> m) [s..m - 1] = [s..m - 1]"
    by (rule filter_True) auto
  moreover have "filter (\<lambda>k. k \<noteq> m) [m + 1..e] = [m + 1..e]"
    by (rule filter_True) auto
  ultimately have "length (filter (\<lambda>k. k \<noteq> m) [s..e]) = length [s..m - 1] + length [m + 1..e]"
    by simp
  then have "length (filter (\<lambda>k. k \<noteq> m) [s..e]) = nat (m - s) + nat (e - m)"
    by simp
  also have "\<dots> = nat (e - s)" using True by linarith
  finally show ?thesis using True by simp
next
  case False
  then have "filter (\<lambda>k. k \<noteq> m) [s..e] = [s..e]"
    by (intro filter_True) auto
  then show ?thesis using False by auto
qed

lemma getContext_length:
  assumes "1 \<le> i" "i \<le> int (length lines)"
  shows "int (length (getContext lines (i - 1) 2)) = min (i + 2) (int (length lines)) - max (i - 2) 1"
proof -
  define s where "s = max 0 (i - 1 - 2)"
  define e where "e = min (int (length lines) - 1) (i - 1 + 2)"
  have in_window: "s \<le> i - 1 \<and> i - 1 \<le> e"
    using assms by (simp add: s_def e_def)
  have "getContext lines (i - 1) 2 =
          map (\<lambda>k. numberToString (k + 1) @ '': '' @ trim (lines ! nat k))
            (filter (\<lambda>k. k \<noteq> i - 1) [s..e])"
    unfolding getContext_eq s_def e_def ..
  then have "length (getContext lines (i - 1) 2) = nat (e - s)"
    using in_window by (simp add: length_filter_neq_upto)
  moreover have "s \<le> e" using in_window by linarith
  ultimately have "int (length (getContext lines (i - 1) 2)) = e - s" by simp
  also have "\<dots> = min (i + 2) (int (length lines)) - max (i - 2) 1"
    unfolding s_def e_def by linarith
  finally show ?thesis .
qed

lemma digitChar_inj: "a < 10 \<Longrightarrow> b < 10 \<Longrightarrow> digitChar a = digitChar b \<Longrightarrow> a = b"
  by (simp add: digitChar_def char_of_eq_iff take_bit_eq_mod)

lemma decimal_nonempty: "decimal n \<noteq> []"
  by (subst decimal.simps) simp

lemma decimal_inj: "decimal n = decimal m \<Longrightarrow> n = m"
proof (induction n arbitrary: m rule: decimal.induct)
  case (1 n)
  show ?case
  proof (cases "n < 10")
    case n: True
    show ?thesis
    proof (cases "m < 10")
      case True
      with n 1(2) show ?thesis
        by (simp add: decimal.simps[of n] decimal.simps[of m] digitChar_inj)
    next
      case False
      with n 1(2) decimal_nonempty[of "m div 10"] show ?thesis
        by (simp add: decimal.simps[of n] decimal.simps[of m] Cons_eq_append_conv)
    qed
  next
    case n: False
    show ?thesis
    proof (cases "m < 10")
      case True
      with n 1(2) decimal_nonempty[of "n div 10"] show ?thesis
        by (simp add: decimal.simps[of n] decimal.simps[of m] append_eq_Cons_conv)
    next
      case False
      with n 1(2) have e: "decimal (n div 10) = decimal (m div 10)" "digitChar (n mod 10) = digitChar (m mod 10)"
        by (simp_all add: decimal.simps[of n] decimal.simps[of m])
      have "n div 10 = m div 10" using 1(1)[OF n e(1)] .
      moreover have "n mod 10 = m mod 10" using e(2) by (intro digitChar_inj) simp_all
      ultimately show ?thesis by (metis div_mult_mod_eq)
    qed
  qed
qed

lemma digitChar_not_colon: "d < 10 \<Longrightarrow> digitChar d \<noteq> CHR '':''"
proof
  assume d: "d < 10" and "digitChar d = CHR '':''"
  then have "(of_char (digitChar d) :: nat) = of_char (CHR '':'')" by simp
  then show False using d by (simp add: digitChar_def)
qed

lemma decimal_no_colon: "CHR '':'' \<notin> set (decimal n)"
proof (induction n rule: decimal.induct)
  case (1 n)
  show ?case
  proof (cases "n < 10")
    case True
    then show ?thesis using digitChar_not_colon[of n] by (subst decimal.simps) auto
  next
    case False
    then show ?thesis using 1[OF False] digitChar_not_colon[of "n mod 10"]
      by (subst decimal.simps) auto
  qed
qed

lemma label_of_entry:
  "takeWhile (\<lambda>c. c \<noteq> CHR '':'') (decimal k @ '': '' @ rest) = decimal k"
proof -
  have "\<forall>c\<in>set (decimal k). c \<noteq> CHR '':''" using decimal_no_colon[of k] by blast
  then show ?thesis by (simp add: takeWhile_append2)
qed

lemma getContext_labels:
  assumes "e \<in> set (getContext lines m c)" and "0 \<le> m"
  shows "takeWhile (\<lambda>c. c \<noteq> CHR '':'') e \<noteq> numberToString (m + 1)"
proof -
  from assms(1) obtain k where k: "k \<noteq> m" "0 \<le> k"
      "e = numberToString (k + 1) @ '': '' @ trim (lines ! nat k)"
    by (auto simp: getContext_eq)
  from k(2,3) have "e = decimal (nat (k + 1)) @ '': '' @ trim (lines ! nat k)"
    by (simp add: numberToString_def)
  then have label: "takeWhile (\<lambda>c. c \<noteq> CHR '':'') e = decimal (nat (k + 1))"
    by (simp only: label_of_entry)
  show ?thesis
  proof
    assume "takeWhile (\<lambda>c. c \<noteq> CHR '':'') e = numberToString (m + 1)"
    then have "decimal (nat (k + 1)) = decimal (nat (m + 1))"
      using label \<open>0 \<le> m\<close> by (simp add: numberToString_def)
    then have "nat (k + 1) = nat (m + 1)" by (rule decimal_inj)
    then show False using k(1,2) \<open>0 \<le> m\<close> by simp
  qed
qed

lemma forEach_context:
  "m \<in> set (searchInLogBody B P cs) \<Longrightarrow>
     1 \<le> lineNumber m \<and> lineNumber m \<le> length (split_lf B)
     \<and> context m = getContext (split_lf B) (int (lineNumber m) - 1) 2"
  by (auto simp: searchInLogBody_def Let_def forEach_enumerate in_set_enumerate_eq)

text \<open>
  Claim C3, as amended. For a match at 1-based line \<open>i\<close> of a body of \<open>n\<close> lines, the
  context has \<open>min (i + 2) n - max (i - 2) 1\<close> entries, the matched line being left out
  already (the formula of the claim subtracts one more); and the line-number label of an
  entry, the text before its colon, is never the number of the matched line.
\<close>

theorem match_context_length_and_labels:
  assumes "m \<in> set (searchInLogBody B P cs)"
  shows "int (length (context m)) =
           min (int (lineNumber m) + 2) (int (length (split_lf B))) - max (int (lineNumber m) - 2) 1
         \<and> (\<forall>e \<in> set (context m).
               takeWhile (\<lambda>c. c \<noteq> CHR '':'') e \<noteq> numberToString (int (lineNumber m)))"
proof -
  from forEach_context[OF assms] have
    r: "1 \<le> int (lineNumber m)" "int (lineNumber m) \<le> int (length (split_lf B))"
    and c: "context m = getContext (split_lf B) (int (lineNumber m) - 1) 2"
    by simp_all
  have "\<forall>e \<in> set (context m). takeWhile (\<lambda>c. c \<noteq> CHR '':'') e \<noteq> numberToString (int (lineNumber m))"
  proof
    fix e assume "e \<in> set (context m)"
    then have "e \<in> set (getContext (split_lf B) (int (lineNumber m) - 1) 2)" using c by simp
    from getContext_labels[OF this] r(1) show "takeWhile (\<lambda>c. c \<noteq> CHR '':'') e \<noteq> numberToString (int (lineNumber m))"
      by simp
  qed
  then show ?thesis using getContext_length[OF r] c by simp
qed

lemma searchInLogBody_example: "searchInLogBody (''a'' @ LF # ''FOO'' @ LF # ''b'') ''foo'' False
   = [\<lparr>lineNumber = 2, line = ''FOO'', context = [''1: a'', ''3: b'']\<rparr>]"
  by code_simp

theorem match_context_witness:
  "\<lparr>lineNumber = 2, line = ''FOO'', context = [''1: a'', ''3: b'']\<rparr>
      \<in> set (searchInLogBody (''a'' @ LF # ''FOO'' @ LF # ''b'') ''foo'' False)
   \<and> int (length [''1: a'', ''3: b'']) = min (2 + 2) (int (length (split_lf (''a'' @ LF # ''FOO'' @ LF # ''b'')))) - max (2 - 2) 1
   \<and> takeWhile (\<lambda>c. c \<noteq> CHR '':'') ''1: a'' \<noteq> numberToString 2"
proof -
  have mem: "\<lparr>lineNumber = 2, line = ''FOO'', context = [''1: a'', ''3: b'']\<rparr>
      \<in> set (searchInLogBody (''a'' @ LF # ''FOO'' @ LF # ''b'') ''foo'' False)"
    by (simp only: searchInLogBody_example) simp
  from match_context_length_and_labels[OF mem] mem show ?thesis by simp
qed

text \<open>
  The lines of the end-to-end example, matched at line 2: the context has the three entries
  of lines 1, 3 and 4, one more than \<open>min (i + 2) n - max (i - 2) 1 - 1\<close>.
\<close>

theorem context_length_counterexample:
  "int (length (getContext [''a'', ''FOO'', ''b'', ''c'', ''d'', ''FOO'', ''e''] (2 - 1) 2))
     \<noteq> min (2 + 2) (int (length [''a'', ''FOO'', ''b'', ''c'', ''d'', ''FOO'', ''e''])) - max (2 - 2) 1 - 1"
  by (simp add: getContext_eq upto_rec1)

section \<open>Properties of the remote log store\<close>

subsection \<open>The limit of a single-page fetch\<close>

lemma digitChar_code: "d < 10 \<Longrightarrow> (of_char (digitChar d) :: nat) = 48 + d"
  by (simp add: digitChar_def)

lemma decimal_digits: "c \<in> set (decimal n) \<Longrightarrow> 48 \<le> (of_char c :: nat) \<and> (of_char c :: nat) \<le> 57"
proof (induction n rule: decimal.induct)
  case (1 n)
  show ?case
  proof (cases "n < 10")
    case True
    with 1(2) show ?thesis by (auto simp: decimal.simps[of n] digitChar_code)
  next
    case False
    with 1 show ?thesis by (auto simp: decimal.simps[of n] digitChar_code)
  qed
qed

lemma numberToString_inj: "numberToString a = numberToString b \<Longrightarrow> a = b"
proof -
  assume eq: "numberToString a = numberToString b"
  have no_minus: "\<And>n. hd (decimal n) \<noteq> CHR ''-''"
  proof
    fix n assume h: "hd (decimal n) = CHR ''-''"
    have "hd (decimal n) \<in> set (decimal n)" using decimal_nonempty by simp
    from decimal_digits[OF this] show False unfolding h by simp
  qed
  show "a = b"
  proof (cases "a < 0"; cases "b < 0")
    assume "a < 0" "b < 0"
    with eq have "nat (- a) = nat (- b)" by (auto simp: numberToString_def dest: decimal_inj)
    with \<open>a < 0\<close> \<open>b < 0\<close> show ?thesis by simp
  next
    assume "a < 0" "\<not> b < 0"
    with eq have "decimal (nat b) = CHR ''-'' # decimal (nat (- a))" by (simp add: numberToString_def)
    then have "hd (decimal (nat b)) = CHR ''-''" by simp
    with no_minus show ?thesis by blast
  next
    assume "\<not> a < 0" "b < 0"
    with eq have "decimal (nat a) = CHR ''-'' # decimal (nat (- b))" by (simp add: numberToString_def)
    then have "hd (decimal (nat a)) = CHR ''-''" by simp
    with no_minus show ?thesis by blast
  next
    assume "\<not> a < 0" "\<not> b < 0"
    with eq have "nat a = nat b" by (auto simp: numberToString_def dest: decimal_inj)
    with \<open>\<not> a < 0\<close> \<open>\<not> b < 0\<close> show ?thesis by simp
  qed
qed

lemma fetchLogs_trace:
  "trace (snd (fetchLogs env f limit w))
     = trace w @ [HttpQuery (selectFrom @ filterWhereClause f @ '' ORDER BY LastModifiedDate DESC LIMIT ''
                              @ numberToString (limitOrDefault limit))]"
  by (cases f)
     (simp_all add: getDebugLogs_def getDebugLogsByUser_def getDebugLogsByDateRange_def limitQuery_def
        emit_def Let_def split: sum.splits)

text \<open>
  Claim C4, as amended. Each of \<open>getDebugLogs\<close>, \<open>getDebugLogsByUser\<close> and
  \<open>getDebugLogsByDateRange\<close> issues exactly one query, and the number after \<open>LIMIT\<close> in
  it is the limit it was given (100 when the argument is omitted), unchanged: the text of
  the number is that of no other number, so zero, negative values and values above the
  page size of 200 reach the server as they are. No clamping takes place.
\<close>

theorem fetchLogs_limit_not_clamped:
  "trace (snd (fetchLogs env f limit w))
     = trace w @ [HttpQuery (selectFrom @ filterWhereClause f @ '' ORDER BY LastModifiedDate DESC LIMIT ''
                              @ numberToString (limitOrDefault limit))]
   \<and> (numberToString (limitOrDefault limit) = numberToString n) = (limitOrDefault limit = n)"
  using fetchLogs_trace numberToString_inj by blast

text \<open>
  The queries issued for the limits 0, 1000 and -5: each carries the limit as given, where
  the claim has a value between 1 and the page cap.
\<close>

theorem fetchLogs_limit_counterexample:
  "trace (snd (getDebugLogs (sampleEnv (\<lambda>q. Inr []) (\<lambda>i. Inr [])) (Some 0) emptyWorld))
     = [HttpQuery (selectFrom @ '' ORDER BY LastModifiedDate DESC LIMIT 0'')]
   \<and> trace (snd (getDebugLogsByDateRange (sampleEnv (\<lambda>q. Inr []) (\<lambda>i. Inr [])) None None (Some 1000) emptyWorld))
     = [HttpQuery (selectFrom @ '' ORDER BY LastModifiedDate DESC LIMIT 1000'')]
   \<and> trace (snd (getDebugLogsByUser (sampleEnv (\<lambda>q. Inr []) (\<lambda>i. Inr [])) ''005'' (Some (- 5)) emptyWorld))
     = [HttpQuery (selectFrom @ userWhereClause ''005'' @ '' ORDER BY LastModifiedDate DESC LIMIT -5'')]"
  by (simp add: getDebugLogs_def getDebugLogsByUser_def getDebugLogsByDateRange_def limitQuery_def
        dateWhereClause_def emit_def Let_def sampleEnv_def emptyWorld_def numberToString_def
        decimal.simps digitChar_def char_of_def bit_Suc_0_iff)


subsection \<open>The bulk body fetch\<close>

lemma batchPromises_eq:
  "batchPromises env batch w =
     (map (\<lambda>i. (i, bodyOf env i)) batch, w\<lparr>trace := trace w @ map HttpBody batch\<rparr>)"
  by (induction batch arbitrary: w)
     (simp_all add: getDebugLogBody_def emit_def bodyOf_def Let_def split: sum.splits)

lemma storeResults_eq:
  "storeResults (map (\<lambda>i. (i, g i)) batch) results =
     (\<lambda>i. if i \<in> set batch \<and> g i \<noteq> None then g i else results i)"
  by (induction batch arbitrary: results) (auto split: option.splits simp: fun_eq_iff)

lemma groupsOf_Nil: "groupsOf k [] = []"
  by (subst groupsOf.simps) simp

lemma groupsOf_step: "0 < k \<Longrightarrow> xs \<noteq> [] \<Longrightarrow> groupsOf k xs = take k xs # groupsOf k (drop k xs)"
  by (subst groupsOf.simps) simp

lemma groupsOf_empty_iff: "0 < k \<Longrightarrow> (groupsOf k xs = []) = (xs = [])"
  by (subst groupsOf.simps) simp

lemma withDelays_Cons: "withDelays (g # gs) = (if gs = [] then g else g @ Sleep 100 # withDelays gs)"
  by (cases gs) simp_all

lemma concat_groupsOf: "0 < k \<Longrightarrow> concat (groupsOf k xs) = xs"
proof (induction k xs rule: groupsOf.induct)
  case (1 k xs)
  show ?case
  proof (cases "xs = []")
    case True then show ?thesis by (simp add: groupsOf_Nil)
  next
    case False
    with 1 show ?thesis by (simp add: groupsOf_step)
  qed
qed

lemma getDebugLogBodies_loop_eq:
  "getDebugLogBodies_loop env logIds i results w =
     ((\<lambda>x. if x \<in> set (drop i logIds) \<and> bodyOf env x \<noteq> None then bodyOf env x else results x),
      w\<lparr>trace := trace w @ withDelays (map (map HttpBody) (groupsOf 10 (drop i logIds)))\<rparr>)"
proof (induction env logIds i results w rule: getDebugLogBodies_loop.induct)
  case (1 env logIds i results w)
  show ?case
  proof (cases "i < length logIds")
    case False
    then show ?thesis
      by (subst getDebugLogBodies_loop.simps) (simp add: groupsOf_Nil)
  next
    case True
    let ?batch = "take 10 (drop i logIds)"
    let ?w1 = "w\<lparr>trace := trace w @ map HttpBody ?batch\<rparr>"
    let ?w2 = "if i + 10 < length logIds then emit (Sleep 100) ?w1 else ?w1"
    have ne: "drop i logIds \<noteq> []" using True by simp
    have g: "groupsOf 10 (drop i logIds) = ?batch # groupsOf 10 (drop (i + 10) logIds)"
      using groupsOf_step[OF _ ne, of 10] by (simp add: add.commute)
    have e: "(groupsOf 10 (drop (i + 10) logIds) = []) = (\<not> i + 10 < length logIds)"
      by (auto simp: groupsOf_empty_iff)
    have s: "set (drop i logIds) = set ?batch \<union> set (drop (i + 10) logIds)"
    proof -
      have "drop (i + 10) logIds = drop 10 (drop i logIds)"
        by (simp add: add.commute)
      then have "drop i logIds = ?batch @ drop (i + 10) logIds"
        by (simp only: append_take_drop_id)
      then have "set (drop i logIds) = set (?batch @ drop (i + 10) logIds)" by simp
      then show ?thesis by (simp only: set_append)
    qed
    have "getDebugLogBodies_loop env logIds i results w =
            getDebugLogBodies_loop env logIds (i + 10)
              (storeResults (map (\<lambda>i. (i, bodyOf env i)) ?batch) results) ?w2"
      using True by (subst getDebugLogBodies_loop.simps)
                    (simp add: bodiesBatchSize_def batchPromises_eq Let_def)
    also have "\<dots> = ((\<lambda>x. if x \<in> set (drop (i + 10) logIds) \<and> bodyOf env x \<noteq> None then bodyOf env x
                           else storeResults (map (\<lambda>i. (i, bodyOf env i)) ?batch) results x),
                      ?w2\<lparr>trace := trace ?w2 @ withDelays (map (map HttpBody) (groupsOf 10 (drop (i + 10) logIds)))\<rparr>)"
      using 1[OF True refl, of "map (\<lambda>i. (i, bodyOf env i)) ?batch" ?w1]
      by (simp add: bodiesBatchSize_def batchPromises_eq)
    also have "\<dots> = ((\<lambda>x. if x \<in> set (drop i logIds) \<and> bodyOf env x \<noteq> None then bodyOf env x else results x),
      w\<lparr>trace := trace w @ withDelays (map (map HttpBody) (groupsOf 10 (drop i logIds)))\<rparr>)"
    proof -
      have m: "(\<lambda>x. if x \<in> set (drop (i + 10) logIds) \<and> bodyOf env x \<noteq> None then bodyOf env x
                           else storeResults (map (\<lambda>i. (i, bodyOf env i)) ?batch) results x)
               = (\<lambda>x. if x \<in> set (drop i logIds) \<and> bodyOf env x \<noteq> None then bodyOf env x else results x)"
        unfolding storeResults_eq s by (rule ext) auto
      have t: "?w2\<lparr>trace := trace ?w2 @ withDelays (map (map HttpBody) (groupsOf 10 (drop (i + 10) logIds)))\<rparr>
               = w\<lparr>trace := trace w @ withDelays (map (map HttpBody) (groupsOf 10 (drop i logIds)))\<rparr>"
      proof (cases "i + 10 < length logIds")
        case True
        then have "groupsOf 10 (drop (i + 10) logIds) \<noteq> []" using e by simp
        then show ?thesis using True unfolding g by (simp add: withDelays_Cons emit_def)
      next
        case False
        then have "groupsOf 10 (drop (i + 10) logIds) = []" using e by simp
        then show ?thesis using False unfolding g by (simp add: emit_def)
      qed
      show ?thesis unfolding m t ..
    qed
    finally show ?thesis .
  qed
qed

lemma groupsOf_25:
  assumes "length xs = 25"
  shows "map length (groupsOf 10 xs) = [10, 10, 5]"
proof -
  have "xs \<noteq> []" "drop 10 xs \<noteq> []" "drop 10 (drop 10 xs) \<noteq> []" "drop 10 (drop 10 (drop 10 xs)) = []"
    using assms by auto
  then show ?thesis using assms
    by (simp add: groupsOf_step groupsOf_Nil)
qed


text \<open>
  Claim C5. \<open>getDebugLogBodies\<close> always returns a mapping, which holds, for each requested id
  whose request succeeds, the body the store gave, and nothing for an id whose request
  fails or that was not requested; a failure changes nothing for the other ids. The requests
  are issued group by group, the groups being the consecutive pieces of ten ids of the
  list, with the fixed delay between one group and the next; 25 ids make groups of 10, 10
  and 5.
\<close>

theorem getDebugLogBodies_groups_and_failures:
  "fst (getDebugLogBodies env logIds w) = (\<lambda>i. if i \<in> set logIds then bodyOf env i else None)
   \<and> trace (snd (getDebugLogBodies env logIds w))
       = trace w @ withDelays (map (map HttpBody) (groupsOf 10 logIds))
   \<and> concat (groupsOf 10 logIds) = logIds
   \<and> (length logIds = 25 \<longrightarrow> map length (groupsOf 10 logIds) = [10, 10, 5])"
proof -
  have "fst (getDebugLogBodies env logIds w) = (\<lambda>i. if i \<in> set logIds then bodyOf env i else None)"
    by (auto simp: getDebugLogBodies_def getDebugLogBodies_loop_eq fun_eq_iff)
  moreover have "trace (snd (getDebugLogBodies env logIds w))
       = trace w @ withDelays (map (map HttpBody) (groupsOf 10 logIds))"
    by (simp add: getDebugLogBodies_def getDebugLogBodies_loop_eq)
  moreover have "concat (groupsOf 10 logIds) = logIds" by (simp add: concat_groupsOf)
  moreover have "length logIds = 25 \<longrightarrow> map length (groupsOf 10 logIds) = [10, 10, 5]"
    using groupsOf_25 by blast
  ultimately show ?thesis by (intro conjI)
qed

theorem getDebugLogBodies_witness:
  "length [''a'', ''b'', ''c'', ''d'', ''e'', ''f'', ''g'', ''h'', ''i'', ''j'', ''k'', ''l'', ''m'',
           ''n'', ''o'', ''p'', ''q'', ''r'', ''s'', ''t'', ''u'', ''v'', ''w'', ''x'', ''y''] = 25
   \<and> map length (groupsOf 10 [''a'', ''b'', ''c'', ''d'', ''e'', ''f'', ''g'', ''h'', ''i'', ''j'', ''k'', ''l'', ''m'',
           ''n'', ''o'', ''p'', ''q'', ''r'', ''s'', ''t'', ''u'', ''v'', ''w'', ''x'', ''y'']) = [10, 10, 5]
   \<and> fst (getDebugLogBodies
             (sampleEnv (\<lambda>q. Inr []) (\<lambda>i. if i = ''g'' then Inl (Error ''404'') else Inr (''body of '' @ i)))
             [''a'', ''b'', ''c'', ''d'', ''e'', ''f'', ''g'', ''h'', ''i'', ''j'', ''k'', ''l'', ''m'',
              ''n'', ''o'', ''p'', ''q'', ''r'', ''s'', ''t'', ''u'', ''v'', ''w'', ''x'', ''y''] emptyWorld) ''g'' = None
   \<and> fst (getDebugLogBodies
             (sampleEnv (\<lambda>q. Inr []) (\<lambda>i. if i = ''g'' then Inl (Error ''404'') else Inr (''body of '' @ i)))
             [''a'', ''b'', ''c'', ''d'', ''e'', ''f'', ''g'', ''h'', ''i'', ''j'', ''k'', ''l'', ''m'',
              ''n'', ''o'', ''p'', ''q'', ''r'', ''s'', ''t'', ''u'', ''v'', ''w'', ''x'', ''y''] emptyWorld) ''h''
       = Some ''body of h''"
  using getDebugLogBodies_groups_and_failures[of
      "sampleEnv (\<lambda>q. Inr []) (\<lambda>i. if i = ''g'' then Inl (Error ''404'') else Inr (''body of '' @ i))"
      "[''a'', ''b'', ''c'', ''d'', ''e'', ''f'', ''g'', ''h'', ''i'', ''j'', ''k'', ''l'', ''m'',
        ''n'', ''o'', ''p'', ''q'', ''r'', ''s'', ''t'', ''u'', ''v'', ''w'', ''x'', ''y'']" emptyWorld]
  by (simp add: bodyOf_def sampleEnv_def)

subsection \<open>The paged fetch\<close>

lemma unlimited_loop:
  "unlimited maxLogs \<Longrightarrow> loopCondition maxLogs s = hasMore s"
  "unlimited maxLogs \<Longrightarrow> currentBatchSize maxLogs s = 200"
  by (simp_all add: loopCondition_def currentBatchSize_def batchSize_def)

lemma loopBody_Some:
  assumes "loopBody env wc maxLogs s w = (Some s', w')"
  shows "\<exists>batch. toolingQuery env (pageQuery wc (currentBatchSize maxLogs s) (offset s)) = Inr batch
           \<and> offset s' = offset s + length batch
           \<and> allLogs s' = allLogs s @ batch
           \<and> hasMore s' = (int (length batch) = currentBatchSize maxLogs s)"
  using assms by (auto simp: loopBody_def Let_def split: sum.splits)

lemma currentBatchSize_pos:
  "loopCondition maxLogs s \<Longrightarrow> 1 \<le> currentBatchSize maxLogs s \<and> currentBatchSize maxLogs s \<le> 200"
  by (cases maxLogs) (auto simp: loopCondition_def currentBatchSize_def batchSize_def)

lemma fetchLoop_bounded:
  assumes m: "0 < m"
    and respects: "\<forall>lim off batch. 1 \<le> lim \<longrightarrow> toolingQuery env (pageQuery wc lim off) = Inr batch \<longrightarrow> int (length batch) \<le> lim"
    and le: "int (length (allLogs s)) \<le> m"
  shows "\<exists>logs w'. fetchLoop env wc (Some m) s w = Some (logs, w') \<and> int (length logs) \<le> m"
  using le
proof (induction "nat (m - int (length (allLogs s)))" arbitrary: s w rule: less_induct)
  case less
  show ?case
  proof (cases "loopCondition (Some m) s")
    case False
    then show ?thesis using less.prems by (subst fetchLoop.simps) simp
  next
    case True
    then have lt: "int (length (allLogs s)) < m" using m by (simp add: loopCondition_def)
    obtain r w1 where body: "loopBody env wc (Some m) s w = (r, w1)" by force
    show ?thesis
    proof (cases r)
      case None
      then show ?thesis using True body less.prems by (subst fetchLoop.simps) simp
    next
      case (Some s')
      from loopBody_Some[OF body[unfolded Some]] obtain batch where
        b: "toolingQuery env (pageQuery wc (currentBatchSize (Some m) s) (offset s)) = Inr batch"
           "allLogs s' = allLogs s @ batch"
           "hasMore s' = (int (length batch) = currentBatchSize (Some m) s)"
        by blast
      from respects b(1) currentBatchSize_pos[OF True]
      have "int (length batch) \<le> currentBatchSize (Some m) s" by blast
      moreover have "currentBatchSize (Some m) s \<le> m - int (length (allLogs s))"
        using m by (simp add: currentBatchSize_def)
      ultimately have le': "int (length (allLogs s')) \<le> m" using b(2) by simp
      have step: "fetchLoop env wc (Some m) s w = fetchLoop env wc (Some m) s' w1"
        using True body Some by (subst fetchLoop.simps) simp
      show ?thesis
      proof (cases "hasMore s'")
        case False
        then have "fetchLoop env wc (Some m) s' w1 = Some (allLogs s', w1)"
          by (subst fetchLoop.simps) (simp add: loopCondition_def)
        then show ?thesis using step le' by simp
      next
        case more: True
        then have "1 \<le> int (length batch)" using b(3) currentBatchSize_pos[OF True] by simp
        then have "nat (m - int (length (allLogs s'))) < nat (m - int (length (allLogs s)))"
          using b(2) lt by auto
        from less.hyps[OF this le'] show ?thesis using step by simp
      qed
    qed
  qed
qed

lemma afterPasses_fetchLoop:
  "afterPasses env wc maxLogs n s w = Some (s', w') \<Longrightarrow>
     fetchLoop env wc maxLogs s w = fetchLoop env wc maxLogs s' w'"
proof (induction n arbitrary: s w)
  case 0 then show ?case by simp
next
  case (Suc n)
  then show ?case
    by (subst fetchLoop.simps) (auto split: if_splits prod.splits option.splits)
qed

lemma afterPasses_offset:
  "afterPasses env wc maxLogs n s w = Some (s', w') \<Longrightarrow> offset s = length (allLogs s) \<Longrightarrow>
     offset s' = length (allLogs s')"
proof (induction n arbitrary: s w)
  case 0 then show ?case by simp
next
  case (Suc n)
  from Suc.prems(1) obtain s1 w1 where
    b: "loopBody env wc maxLogs s w = (Some s1, w1)" and r: "afterPasses env wc maxLogs n s1 w1 = Some (s', w')"
    by (auto split: if_splits prod.splits option.splits)
  from loopBody_Some[OF b] Suc.prems(2) have "offset s1 = length (allLogs s1)" by auto
  from Suc.IH[OF r this] show ?case .
qed

lemma afterPasses_bounded:
  assumes m: "0 < m"
    and respects: "\<forall>lim off batch. 1 \<le> lim \<longrightarrow> toolingQuery env (pageQuery wc lim off) = Inr batch \<longrightarrow> int (length batch) \<le> lim"
  shows "afterPasses env wc (Some m) n s w = Some (s', w') \<Longrightarrow> int (length (allLogs s)) \<le> m \<Longrightarrow>
     int (length (allLogs s')) \<le> m"
proof (induction n arbitrary: s w)
  case 0 then show ?case by simp
next
  case (Suc n)
  from Suc.prems(1) obtain s1 w1 where
    c: "loopCondition (Some m) s" and
    b: "loopBody env wc (Some m) s w = (Some s1, w1)" and r: "afterPasses env wc (Some m) n s1 w1 = Some (s', w')"
    by (auto split: if_splits prod.splits option.splits)
  from loopBody_Some[OF b] obtain batch where
    bb: "toolingQuery env (pageQuery wc (currentBatchSize (Some m) s) (offset s)) = Inr batch"
        "allLogs s1 = allLogs s @ batch" by blast
  from respects bb(1) currentBatchSize_pos[OF c]
  have "int (length batch) \<le> currentBatchSize (Some m) s" by blast
  moreover have "currentBatchSize (Some m) s \<le> m - int (length (allLogs s))"
    using m by (simp add: currentBatchSize_def)
  ultimately have "int (length (allLogs s1)) \<le> m" using bb(2) by simp
  from Suc.IH[OF r this] show ?case .
qed

lemma fetchLoop_break:
  assumes "loopCondition maxLogs s"
    and "toolingQuery env (pageQuery wc (currentBatchSize maxLogs s) (offset s)) = Inl e"
  shows "fetchLoop env wc maxLogs s w =
           Some (allLogs s, emit (HttpQuery (pageQuery wc (currentBatchSize maxLogs s) (offset s))) w)"
  using assms by (subst fetchLoop.simps) (simp add: loopBody_def Let_def)


lemma afterPasses_full_pages:
  assumes u: "unlimited maxLogs"
    and full: "\<forall>j<k. toolingQuery env (pageQuery wc 200 (200 * j)) = Inr (pages j) \<and> length (pages j) = 200"
  shows "hasMore s \<Longrightarrow> offset s = 200 * j \<Longrightarrow> j + n = k \<Longrightarrow>
     \<exists>w'. afterPasses env wc maxLogs n s w =
       Some (\<lparr>allLogs = allLogs s @ concat (map pages [j..<k]), offset = 200 * k, hasMore = True\<rparr>, w')"
proof (induction n arbitrary: s w j)
  case 0
  then show ?case by simp
next
  case (Suc n)
  from Suc.prems(3) have jk: "j < k" by simp
  with full have p: "toolingQuery env (pageQuery wc 200 (200 * j)) = Inr (pages j)" "length (pages j) = 200"
    by simp_all
  define s1 where "s1 = \<lparr>allLogs = allLogs s @ pages j, offset = 200 * Suc j, hasMore = True\<rparr>"
  have body: "loopBody env wc maxLogs s w =
      (Some s1, emit (Sleep 100) (emit (HttpQuery (pageQuery wc 200 (200 * j))) w))"
    using p Suc.prems(2) by (simp add: loopBody_def Let_def unlimited_loop[OF u] s1_def)
  have "hasMore s1" "offset s1 = 200 * Suc j" "Suc j + n = k"
    using Suc.prems(3) by (simp_all add: s1_def)
  from Suc.IH[OF this] obtain w' where
    "afterPasses env wc maxLogs n s1 (emit (Sleep 100) (emit (HttpQuery (pageQuery wc 200 (200 * j))) w)) =
       Some (\<lparr>allLogs = allLogs s1 @ concat (map pages [Suc j..<k]), offset = 200 * k, hasMore = True\<rparr>, w')"
    by blast
  moreover have "[j..<k] = j # [Suc j..<k]" using jk by (simp add: upt_rec)
  ultimately show ?case
    using Suc.prems(1) body by (simp add: unlimited_loop[OF u] s1_def)
qed

lemma fetchLoop_unlimited:
  assumes u: "unlimited maxLogs"
    and full: "\<forall>j<k. toolingQuery env (pageQuery wc 200 (200 * j)) = Inr (pages j) \<and> length (pages j) = 200"
    and short: "toolingQuery env (pageQuery wc 200 (200 * k)) = Inr lastPage" "length lastPage < 200"
  shows "\<exists>w'. fetchLoop env wc maxLogs initialState w = Some (concat (map pages [0..<k]) @ lastPage, w')"
proof -
  define sk where "sk = \<lparr>allLogs = concat (map pages [0..<k]), offset = 200 * k, hasMore = True\<rparr>"
  have "hasMore initialState" "offset initialState = 200 * 0" "0 + k = k"
    by (simp_all add: initialState_def)
  from afterPasses_full_pages[OF u full this] obtain w1 where
    "afterPasses env wc maxLogs k initialState w = Some (sk, w1)"
    by (auto simp: initialState_def sk_def)
  then have "fetchLoop env wc maxLogs initialState w = fetchLoop env wc maxLogs sk w1"
    by (rule afterPasses_fetchLoop)
  also have "\<dots> = fetchLoop env wc maxLogs \<lparr>allLogs = concat (map pages [0..<k]) @ lastPage,
        offset = 200 * k + length lastPage, hasMore = False\<rparr> (emit (HttpQuery (pageQuery wc 200 (200 * k))) w1)"
    using short by (subst fetchLoop.simps) (simp add: unlimited_loop[OF u] loopBody_def Let_def sk_def)
  also have "\<dots> = Some (concat (map pages [0..<k]) @ lastPage, emit (HttpQuery (pageQuery wc 200 (200 * k))) w1)"
    by (subst fetchLoop.simps) (simp add: loopCondition_def)
  finally show ?thesis by blast
qed



lemma fetchAllLogs_fetchLoop:
  "fetchAllLogs env f maxLogs w = fetchLoop env (filterWhereClause f) maxLogs initialState w"
  by (cases f) (simp_all add: getAllDebugLogs_def getAllDebugLogsByUser_def getAllDebugLogsByDateRange_def)

text \<open>
  Claim C2. Whenever the loop of \<open>getAllDebugLogs\<close> (or of the variant by user or by date
  range, \<open>fetchAllLogs\<close> at the filter) stands at its head after some passes, the offset is
  the number of records accumulated so far, and a pass whose request succeeds moves the
  offset by the length of the page returned and appends that page. With a positive
  \<open>maxLogs\<close> and a store that returns at most as many records as a request asks for, the
  accumulated count never exceeds \<open>maxLogs\<close>, in any pass and in the result, and the fetch
  returns. With \<open>maxLogs\<close> absent or zero every request asks for 200 records, and when the
  pages at the offsets 0, 200, .. are full up to a first page with fewer than 200 records,
  the result is all those pages, in order.
\<close>

theorem getAllDebugLogs_offset_and_bound:
  "(afterPasses env (filterWhereClause f) maxLogs n initialState w = Some (s, w1) \<longrightarrow>
      offset s = length (allLogs s)
      \<and> (\<forall>s' w2. loopBody env (filterWhereClause f) maxLogs s w1 = (Some s', w2) \<longrightarrow>
            (\<exists>batch. toolingQuery env (pageQuery (filterWhereClause f) (currentBatchSize maxLogs s) (offset s))
                        = Inr batch
               \<and> offset s' = offset s + length batch
               \<and> allLogs s' = allLogs s @ batch
               \<and> hasMore s' = (int (length batch) = currentBatchSize maxLogs s)))
      \<and> (maxLogs = Some m \<and> 0 < m
           \<and> (\<forall>lim off batch. 1 \<le> lim \<longrightarrow>
                   toolingQuery env (pageQuery (filterWhereClause f) lim off) = Inr batch \<longrightarrow>
                   int (length batch) \<le> lim) \<longrightarrow>
           int (length (allLogs s)) \<le> m))
   \<and> (0 < m \<and> (\<forall>lim off batch. 1 \<le> lim \<longrightarrow>
                   toolingQuery env (pageQuery (filterWhereClause f) lim off) = Inr batch \<longrightarrow>
                   int (length batch) \<le> lim) \<longrightarrow>
        (\<exists>logs w'. fetchAllLogs env f (Some m) w = Some (logs, w') \<and> int (length logs) \<le> m))
   \<and> (unlimited maxLogsU
        \<and> (\<forall>j<k. toolingQuery env (pageQuery (filterWhereClause f) 200 (200 * j)) = Inr (pages j)
                  \<and> length (pages j) = 200)
        \<and> toolingQuery env (pageQuery (filterWhereClause f) 200 (200 * k)) = Inr lastPage
        \<and> length lastPage < 200 \<longrightarrow>
        (\<exists>w'. fetchAllLogs env f maxLogsU w = Some (concat (map pages [0..<k]) @ lastPage, w')))"
proof -
  let ?wc = "filterWhereClause f"
  let ?R = "\<forall>lim off batch. 1 \<le> lim \<longrightarrow>
                   toolingQuery env (pageQuery ?wc lim off) = Inr batch \<longrightarrow> int (length batch) \<le> lim"
  have passes: "afterPasses env ?wc maxLogs n initialState w = Some (s, w1) \<longrightarrow>
      offset s = length (allLogs s)
      \<and> (\<forall>s' w2. loopBody env ?wc maxLogs s w1 = (Some s', w2) \<longrightarrow>
            (\<exists>batch. toolingQuery env (pageQuery ?wc (currentBatchSize maxLogs s) (offset s)) = Inr batch
               \<and> offset s' = offset s + length batch
               \<and> allLogs s' = allLogs s @ batch
               \<and> hasMore s' = (int (length batch) = currentBatchSize maxLogs s)))
      \<and> (maxLogs = Some m \<and> 0 < m \<and> ?R \<longrightarrow> int (length (allLogs s)) \<le> m)"
  proof (intro impI conjI allI)
    assume a: "afterPasses env ?wc maxLogs n initialState w = Some (s, w1)"
    show "offset s = length (allLogs s)"
      by (rule afterPasses_offset[OF a]) (simp add: initialState_def)
  next
    fix s' w2
    assume "loopBody env ?wc maxLogs s w1 = (Some s', w2)"
    then show "\<exists>batch. toolingQuery env (pageQuery ?wc (currentBatchSize maxLogs s) (offset s)) = Inr batch
               \<and> offset s' = offset s + length batch
               \<and> allLogs s' = allLogs s @ batch
               \<and> hasMore s' = (int (length batch) = currentBatchSize maxLogs s)"
      by (rule loopBody_Some)
  next
    assume a: "afterPasses env ?wc maxLogs n initialState w = Some (s, w1)"
      and h: "maxLogs = Some m \<and> 0 < m \<and> ?R"
    then have a': "afterPasses env ?wc (Some m) n initialState w = Some (s, w1)"
      and m: "0 < m" and r: ?R
      by simp_all
    have i: "int (length (allLogs initialState)) \<le> m" using m by (simp add: initialState_def)
    show "int (length (allLogs s)) \<le> m"
      by (rule afterPasses_bounded[OF m r a' i])
  qed
  have bound: "0 < m \<and> ?R \<longrightarrow>
        (\<exists>logs w'. fetchAllLogs env f (Some m) w = Some (logs, w') \<and> int (length logs) \<le> m)"
  proof
    assume h: "0 < m \<and> ?R"
    then have m: "0 < m" and r: ?R by blast+
    have i: "int (length (allLogs initialState)) \<le> m" using m by (simp add: initialState_def)
    show "\<exists>logs w'. fetchAllLogs env f (Some m) w = Some (logs, w') \<and> int (length logs) \<le> m"
      unfolding fetchAllLogs_fetchLoop by (rule fetchLoop_bounded[OF m r i])
  qed
  have unl: "unlimited maxLogsU
        \<and> (\<forall>j<k. toolingQuery env (pageQuery ?wc 200 (200 * j)) = Inr (pages j) \<and> length (pages j) = 200)
        \<and> toolingQuery env (pageQuery ?wc 200 (200 * k)) = Inr lastPage \<and> length lastPage < 200 \<longrightarrow>
        (\<exists>w'. fetchAllLogs env f maxLogsU w = Some (concat (map pages [0..<k]) @ lastPage, w'))"
    unfolding fetchAllLogs_fetchLoop using fetchLoop_unlimited by blast
  from passes bound unl show ?thesis by (intro conjI)
qed

lemma pageQuery_offsets_differ: "pageQuery [] 200 200 \<noteq> pageQuery [] 200 0"
  by (simp add: pageQuery_def numberToString_def decimal.simps digitChar_def)

lemma numberToString_no_space: "CHR '' '' \<notin> set (numberToString n)"
proof
  assume "CHR '' '' \<in> set (numberToString n)"
  then have "CHR '' '' \<in> set (decimal (nat (- n))) \<or> CHR '' '' \<in> set (decimal (nat n))"
    by (auto simp: numberToString_def split: if_splits)
  then show False using decimal_digits[of "CHR '' ''"] by auto
qed

lemma split_at_first:
  "a @ c # x = b @ c # y \<Longrightarrow> c \<notin> set a \<Longrightarrow> c \<notin> set b \<Longrightarrow> a = b \<and> x = y"
proof (induction a arbitrary: b)
  case Nil
  then show ?case by (cases b) auto
next
  case (Cons d a)
  then show ?case by (cases b) auto
qed

lemma pageQuery_inj:
  assumes "pageQuery wc lim off = pageQuery wc lim' off'"
  shows "lim = lim' \<and> off = off'"
proof -
  from assms have "numberToString lim @ CHR '' '' # ''OFFSET '' @ numberToString (int off)
      = numberToString lim' @ CHR '' '' # ''OFFSET '' @ numberToString (int off')"
    by (simp add: pageQuery_def)
  from split_at_first[OF this numberToString_no_space numberToString_no_space]
  have "numberToString lim = numberToString lim'" "numberToString (int off) = numberToString (int off')"
    by simp_all
  then show ?thesis using numberToString_inj by fastforce
qed

theorem getAllDebugLogs_offset_and_bound_witness:
  "afterPasses (sampleEnv (\<lambda>q. if q = pageQuery [] 200 0 then Inr (replicate 200 (sampleLog ''07L01'' 5))
                              else Inr [sampleLog ''07L02'' 6]) (\<lambda>i. Inr ''x''))
       (filterWhereClause NoFilter) (Some 250) 1 initialState emptyWorld
     = Some (\<lparr>allLogs = replicate 200 (sampleLog ''07L01'' 5), offset = 200, hasMore = True\<rparr>,
             \<lparr>trace = [HttpQuery (pageQuery [] 200 0), Sleep 100], directories = [], files = []\<rparr>)
   \<and> loopBody (sampleEnv (\<lambda>q. if q = pageQuery [] 200 0 then Inr (replicate 200 (sampleLog ''07L01'' 5))
                              else Inr [sampleLog ''07L02'' 6]) (\<lambda>i. Inr ''x''))
       (filterWhereClause NoFilter) (Some 250)
       \<lparr>allLogs = replicate 200 (sampleLog ''07L01'' 5), offset = 200, hasMore = True\<rparr>
       \<lparr>trace = [HttpQuery (pageQuery [] 200 0), Sleep 100], directories = [], files = []\<rparr>
     = (Some \<lparr>allLogs = replicate 200 (sampleLog ''07L01'' 5) @ [sampleLog ''07L02'' 6],
              offset = 201, hasMore = False\<rparr>,
        \<lparr>trace = [HttpQuery (pageQuery [] 200 0), Sleep 100, HttpQuery (pageQuery [] 50 200)],
         directories = [], files = []\<rparr>)
   \<and> (0::int) < 250
   \<and> (\<exists>logs w'. getAllDebugLogs (sampleEnv (\<lambda>q. if q = pageQuery [] 200 0 then Inr (replicate 200 (sampleLog ''07L01'' 5))
                              else Inr [sampleLog ''07L02'' 6]) (\<lambda>i. Inr ''x'')) (Some 250) emptyWorld
          = Some (logs, w') \<and> int (length logs) \<le> 250)
   \<and> unlimited None
   \<and> toolingQuery (sampleEnv (\<lambda>q. if q = pageQuery [] 200 0 then Inr (replicate 200 (sampleLog ''07L01'' 5))
                              else Inr [sampleLog ''07L02'' 6]) (\<lambda>i. Inr ''x''))
         (pageQuery (filterWhereClause NoFilter) 200 (200 * 0))
        = Inr (replicate 200 (sampleLog ''07L01'' 5))
   \<and> length (replicate 200 (sampleLog ''07L01'' 5)) = 200
   \<and> toolingQuery (sampleEnv (\<lambda>q. if q = pageQuery [] 200 0 then Inr (replicate 200 (sampleLog ''07L01'' 5))
                              else Inr [sampleLog ''07L02'' 6]) (\<lambda>i. Inr ''x''))
         (pageQuery (filterWhereClause NoFilter) 200 (200 * 1))
        = Inr [sampleLog ''07L02'' 6]
   \<and> length [sampleLog ''07L02'' 6] < 200
   \<and> (\<exists>w'. getAllDebugLogs (sampleEnv (\<lambda>q. if q = pageQuery [] 200 0 then Inr (replicate 200 (sampleLog ''07L01'' 5))
                              else Inr [sampleLog ''07L02'' 6]) (\<lambda>i. Inr ''x'')) None emptyWorld
          = Some (replicate 200 (sampleLog ''07L01'' 5) @ [sampleLog ''07L02'' 6], w'))"
proof -
  let ?E = "sampleEnv (\<lambda>q. if q = pageQuery [] 200 0 then Inr (replicate 200 (sampleLog ''07L01'' 5))
                              else Inr [sampleLog ''07L02'' 6]) (\<lambda>i. Inr ''x'')"
  let ?s = "\<lparr>allLogs = replicate 200 (sampleLog ''07L01'' 5), offset = 200, hasMore = True\<rparr>"
  let ?w = "\<lparr>trace = [HttpQuery (pageQuery [] 200 0), Sleep 100], directories = [], files = []\<rparr>"
  have p: "afterPasses ?E (filterWhereClause NoFilter) (Some 250) 1 initialState emptyWorld = Some (?s, ?w)"
    by (simp add: initialState_def loopCondition_def loopBody_def currentBatchSize_def batchSize_def
          sampleEnv_def emit_def emptyWorld_def Let_def)
  have ne: "pageQuery [] 50 200 \<noteq> pageQuery [] 200 0"
    using pageQuery_inj[of "[]" 50 200 200 0] by auto
  have b: "loopBody ?E (filterWhereClause NoFilter) (Some 250) ?s ?w
     = (Some \<lparr>allLogs = replicate 200 (sampleLog ''07L01'' 5) @ [sampleLog ''07L02'' 6],
              offset = 201, hasMore = False\<rparr>,
        \<lparr>trace = [HttpQuery (pageQuery [] 200 0), Sleep 100, HttpQuery (pageQuery [] 50 200)],
         directories = [], files = []\<rparr>)"
    using ne by (simp add: loopBody_def currentBatchSize_def batchSize_def sampleEnv_def emit_def Let_def)
  have respects: "\<forall>lim off batch. 1 \<le> lim \<longrightarrow>
         toolingQuery ?E (pageQuery (filterWhereClause NoFilter) lim off) = Inr batch \<longrightarrow> int (length batch) \<le> lim"
    using pageQuery_inj[of "[]" _ _ 200 0] by (auto simp: sampleEnv_def split: if_splits)
  have full: "\<forall>j<1. toolingQuery ?E (pageQuery (filterWhereClause NoFilter) 200 (200 * j))
                 = Inr ((\<lambda>j. replicate 200 (sampleLog ''07L01'' 5)) j)
               \<and> length ((\<lambda>j. replicate 200 (sampleLog ''07L01'' 5)) j) = 200"
    by (simp add: sampleEnv_def)
  have short: "toolingQuery ?E (pageQuery (filterWhereClause NoFilter) 200 (200 * 1)) = Inr [sampleLog ''07L02'' 6]"
    using pageQuery_offsets_differ by (simp add: sampleEnv_def)
  from getAllDebugLogs_offset_and_bound[where env = ?E and f = NoFilter and maxLogs = "Some 250" and n = 1
      and w = emptyWorld and s = ?s and ?w1.0 = ?w and m = 250 and maxLogsU = None and k = 1
      and pages = "\<lambda>j. replicate 200 (sampleLog ''07L01'' 5)" and lastPage = "[sampleLog ''07L02'' 6]"]
    p b respects full short
  show ?thesis
    by (simp add: sampleEnv_def)
qed


text \<open>
  Claim C7. When the loop of a paged fetch stands at its head after some passes, with its
  condition true, and the request of the next page fails, the fetch returns, and what it
  returns is the records accumulated in the passes before; the failed request is the last
  thing it did. Nothing but a list of records is ever returned.
\<close>

theorem page_failure_returns_accumulated:
  assumes passes: "afterPasses env (filterWhereClause f) maxLogs n initialState w = Some (s, w1)"
    and cond: "loopCondition maxLogs s"
    and fails: "toolingQuery env (pageQuery (filterWhereClause f) (currentBatchSize maxLogs s) (offset s)) = Inl e"
  shows "fetchAllLogs env f maxLogs w =
           Some (allLogs s,
                 emit (HttpQuery (pageQuery (filterWhereClause f) (currentBatchSize maxLogs s) (offset s))) w1)"
proof -
  have "fetchLoop env (filterWhereClause f) maxLogs initialState w = fetchLoop env (filterWhereClause f) maxLogs s w1"
    using passes by (rule afterPasses_fetchLoop)
  also have "\<dots> = Some (allLogs s,
                 emit (HttpQuery (pageQuery (filterWhereClause f) (currentBatchSize maxLogs s) (offset s))) w1)"
    using cond fails by (rule fetchLoop_break)
  finally show ?thesis by (simp add: fetchAllLogs_fetchLoop)
qed

theorem page_failure_witness:
  "afterPasses (sampleEnv (\<lambda>q. if q = pageQuery [] 200 0 then Inr (replicate 200 (sampleLog ''07L01'' 5))
                              else Inl (Error ''ETIMEDOUT'')) (\<lambda>i. Inr ''x''))
       (filterWhereClause NoFilter) None 1 initialState emptyWorld
     = Some (\<lparr>allLogs = replicate 200 (sampleLog ''07L01'' 5), offset = 200, hasMore = True\<rparr>,
             \<lparr>trace = [HttpQuery (pageQuery [] 200 0), Sleep 100], directories = [], files = []\<rparr>)
   \<and> getAllDebugLogs (sampleEnv (\<lambda>q. if q = pageQuery [] 200 0 then Inr (replicate 200 (sampleLog ''07L01'' 5))
                              else Inl (Error ''ETIMEDOUT'')) (\<lambda>i. Inr ''x'')) None emptyWorld
     = Some (replicate 200 (sampleLog ''07L01'' 5),
             \<lparr>trace = [HttpQuery (pageQuery [] 200 0), Sleep 100, HttpQuery (pageQuery [] 200 200)],
              directories = [], files = []\<rparr>)"
proof -
  let ?E = "sampleEnv (\<lambda>q. if q = pageQuery [] 200 0 then Inr (replicate 200 (sampleLog ''07L01'' 5))
                              else Inl (Error ''ETIMEDOUT'')) (\<lambda>i. Inr ''x'')"
  let ?s = "\<lparr>allLogs = replicate 200 (sampleLog ''07L01'' 5), offset = 200, hasMore = True\<rparr>"
  let ?w = "\<lparr>trace = [HttpQuery (pageQuery [] 200 0), Sleep 100], directories = [], files = []\<rparr>"
  have p: "afterPasses ?E (filterWhereClause NoFilter) None 1 initialState emptyWorld = Some (?s, ?w)"
    by (simp add: initialState_def loopCondition_def loopBody_def currentBatchSize_def batchSize_def
          sampleEnv_def emit_def emptyWorld_def Let_def)
  have c: "loopCondition None ?s" by (simp add: loopCondition_def)
  have f: "toolingQuery ?E (pageQuery (filterWhereClause NoFilter) (currentBatchSize None ?s) (offset ?s)) = Inl (Error ''ETIMEDOUT'')"
    using pageQuery_offsets_differ by (simp add: currentBatchSize_def batchSize_def sampleEnv_def)
  from page_failure_returns_accumulated[OF p c f] p show ?thesis
    by (simp add: emit_def currentBatchSize_def batchSize_def)
qed


section \<open>Properties of the search pipeline\<close>

lemma searchEach_eq:
  "searchEach env options logs results w =
     (results @ concat (map (resultOf env options) logs),
      w\<lparr>trace := trace w @ map (\<lambda>l. HttpBody (LogId l)) logs\<rparr>)"
  by (induction logs arbitrary: results w)
     (simp_all add: getDebugLogBody_def emit_def resultOf_def Let_def split: sum.splits)

text \<open>
  Claim C6. In \<open>searchLogsWithStats\<close>, \<open>searchLogs\<close> and \<open>searchAllLogsWithStats\<close>, once the
  records are fetched, the search returns normally whatever the body requests do: the
  results are what each record adds, in the order of the records, a record whose body
  request fails adds nothing, one body request is issued for every record, also after a
  failure, and the count returned is the number of records fetched, failed ones included.
\<close>

theorem search_skips_failed_bodies:
  "(fetchByFilters env options w = (Inr logs, w1) \<longrightarrow>
      searchLogsWithStats env options w =
        (Inr (concat (map (resultOf env options) logs), length logs),
         w1\<lparr>trace := trace w1 @ map (\<lambda>l. HttpBody (LogId l)) logs\<rparr>)
      \<and> searchLogs env options w =
        (Inr (concat (map (resultOf env options) logs)),
         w1\<lparr>trace := trace w1 @ map (\<lambda>l. HttpBody (LogId l)) logs\<rparr>))
   \<and> (fetchAllByFilters env options w = Some (logsA, wA) \<longrightarrow>
      searchAllLogsWithStats env options w =
        Some (Inr (concat (map (resultOf env options) logsA), length logsA),
              wA\<lparr>trace := trace wA @ map (\<lambda>l. HttpBody (LogId l)) logsA\<rparr>))
   \<and> (apexLogBody env (LogId l) = Inl e \<longrightarrow> resultOf env options l = [])"
  by (simp add: searchLogsWithStats_def searchLogs_def searchAllLogsWithStats_def searchEach_eq resultOf_def)

lemma ex_fetchAll:
  "getAllDebugLogs (sampleEnv (\<lambda>q. Inr [sampleLog ''07L01'' 5, sampleLog ''07L02'' 6, sampleLog ''07L03'' 7])
          (\<lambda>i. if i = ''07L02'' then Inl (Error ''404'') else Inr ''x FOO'')) None emptyWorld
   = Some ([sampleLog ''07L01'' 5, sampleLog ''07L02'' 6, sampleLog ''07L03'' 7],
           \<lparr>trace = [HttpQuery (pageQuery [] 200 0)], directories = [], files = []\<rparr>)"
  by (simp add: getAllDebugLogs_def fetchLoop.simps initialState_def loopCondition_def loopBody_def
        currentBatchSize_def batchSize_def sampleEnv_def emit_def emptyWorld_def Let_def)


theorem search_skips_failed_bodies_witness:
  "fetchByFilters (sampleEnv (\<lambda>q. Inr [sampleLog ''07L01'' 5, sampleLog ''07L02'' 6, sampleLog ''07L03'' 7])
          (\<lambda>i. if i = ''07L02'' then Inl (Error ''404'') else Inr ''x FOO'')) (sampleOptions ''foo'') emptyWorld
     = (Inr [sampleLog ''07L01'' 5, sampleLog ''07L02'' 6, sampleLog ''07L03'' 7],
        \<lparr>trace = [HttpQuery (limitQuery [] 100)], directories = [], files = []\<rparr>)
   \<and> fetchAllByFilters (sampleEnv (\<lambda>q. Inr [sampleLog ''07L01'' 5, sampleLog ''07L02'' 6, sampleLog ''07L03'' 7])
          (\<lambda>i. if i = ''07L02'' then Inl (Error ''404'') else Inr ''x FOO'')) (sampleOptions ''foo'') emptyWorld
     = Some ([sampleLog ''07L01'' 5, sampleLog ''07L02'' 6, sampleLog ''07L03'' 7],
        \<lparr>trace = [HttpQuery (pageQuery [] 200 0)], directories = [], files = []\<rparr>)
   \<and> apexLogBody (sampleEnv (\<lambda>q. Inr [sampleLog ''07L01'' 5, sampleLog ''07L02'' 6, sampleLog ''07L03'' 7])
          (\<lambda>i. if i = ''07L02'' then Inl (Error ''404'') else Inr ''x FOO'')) (LogId (sampleLog ''07L02'' 6))
     = Inl (Error ''404'')
   \<and> searchLogsWithStats (sampleEnv (\<lambda>q. Inr [sampleLog ''07L01'' 5, sampleLog ''07L02'' 6, sampleLog ''07L03'' 7])
          (\<lambda>i. if i = ''07L02'' then Inl (Error ''404'') else Inr ''x FOO'')) (sampleOptions ''foo'') emptyWorld
     = (Inr ([\<lparr>log = sampleLog ''07L01'' 5, matches = [\<lparr>lineNumber = 1, line = ''x FOO'', context = []\<rparr>]\<rparr>,
              \<lparr>log = sampleLog ''07L03'' 7, matches = [\<lparr>lineNumber = 1, line = ''x FOO'', context = []\<rparr>]\<rparr>], 3),
        \<lparr>trace = [HttpQuery (limitQuery [] 100), HttpBody ''07L01'', HttpBody ''07L02'', HttpBody ''07L03''],
         directories = [], files = []\<rparr>)
   \<and> searchAllLogsWithStats (sampleEnv (\<lambda>q. Inr [sampleLog ''07L01'' 5, sampleLog ''07L02'' 6, sampleLog ''07L03'' 7])
          (\<lambda>i. if i = ''07L02'' then Inl (Error ''404'') else Inr ''x FOO'')) (sampleOptions ''foo'') emptyWorld
     = Some (Inr ([\<lparr>log = sampleLog ''07L01'' 5, matches = [\<lparr>lineNumber = 1, line = ''x FOO'', context = []\<rparr>]\<rparr>,
              \<lparr>log = sampleLog ''07L03'' 7, matches = [\<lparr>lineNumber = 1, line = ''x FOO'', context = []\<rparr>]\<rparr>], 3),
        \<lparr>trace = [HttpQuery (pageQuery [] 200 0), HttpBody ''07L01'', HttpBody ''07L02'', HttpBody ''07L03''],
         directories = [], files = []\<rparr>)"
proof -
  let ?E = "sampleEnv (\<lambda>q. Inr [sampleLog ''07L01'' 5, sampleLog ''07L02'' 6, sampleLog ''07L03'' 7])
          (\<lambda>i. if i = ''07L02'' then Inl (Error ''404'') else Inr ''x FOO'')"
  have f: "fetchByFilters ?E (sampleOptions ''foo'') emptyWorld
     = (Inr [sampleLog ''07L01'' 5, sampleLog ''07L02'' 6, sampleLog ''07L03'' 7],
        \<lparr>trace = [HttpQuery (limitQuery [] 100)], directories = [], files = []\<rparr>)"
    by (simp add: fetchByFilters_def sampleOptions_def getDebugLogs_def sampleEnv_def emit_def
          emptyWorld_def Let_def)
  have fa: "fetchAllByFilters ?E (sampleOptions ''foo'') emptyWorld
     = Some ([sampleLog ''07L01'' 5, sampleLog ''07L02'' 6, sampleLog ''07L03'' 7],
        \<lparr>trace = [HttpQuery (pageQuery [] 200 0)], directories = [], files = []\<rparr>)"
    using ex_fetchAll by (simp add: fetchAllByFilters_def sampleOptions_def)
  have b: "apexLogBody ?E (LogId (sampleLog ''07L02'' 6)) = Inl (Error ''404'')"
    by (simp add: sampleEnv_def sampleLog_def)
  have m: "searchInLogBody ''x FOO'' ''foo'' False = [\<lparr>lineNumber = 1, line = ''x FOO'', context = []\<rparr>]"
    by code_simp
  have r: "resultOf ?E (sampleOptions ''foo'') (sampleLog ''07L01'' 5)
             = [\<lparr>log = sampleLog ''07L01'' 5, matches = [\<lparr>lineNumber = 1, line = ''x FOO'', context = []\<rparr>]\<rparr>]"
     "resultOf ?E (sampleOptions ''foo'') (sampleLog ''07L02'' 6) = []"
     "resultOf ?E (sampleOptions ''foo'') (sampleLog ''07L03'' 7)
             = [\<lparr>log = sampleLog ''07L03'' 7, matches = [\<lparr>lineNumber = 1, line = ''x FOO'', context = []\<rparr>]\<rparr>]"
    by (simp_all add: resultOf_def sampleEnv_def sampleLog_def sampleOptions_def m)
  from search_skips_failed_bodies[of ?E "sampleOptions ''foo''" emptyWorld
      "[sampleLog ''07L01'' 5, sampleLog ''07L02'' 6, sampleLog ''07L03'' 7]"
      "\<lparr>trace = [HttpQuery (limitQuery [] 100)], directories = [], files = []\<rparr>"
      "[sampleLog ''07L01'' 5, sampleLog ''07L02'' 6, sampleLog ''07L03'' 7]"
      "\<lparr>trace = [HttpQuery (pageQuery [] 200 0)], directories = [], files = []\<rparr>"
      "sampleLog ''07L02'' 6" "Error ''404''"]
  have "searchLogsWithStats ?E (sampleOptions ''foo'') emptyWorld
     = (Inr ([\<lparr>log = sampleLog ''07L01'' 5, matches = [\<lparr>lineNumber = 1, line = ''x FOO'', context = []\<rparr>]\<rparr>,
              \<lparr>log = sampleLog ''07L03'' 7, matches = [\<lparr>lineNumber = 1, line = ''x FOO'', context = []\<rparr>]\<rparr>], 3),
        \<lparr>trace = [HttpQuery (limitQuery [] 100), HttpBody ''07L01'', HttpBody ''07L02'', HttpBody ''07L03''],
         directories = [], files = []\<rparr>)"
    and "searchAllLogsWithStats ?E (sampleOptions ''foo'') emptyWorld
     = Some (Inr ([\<lparr>log = sampleLog ''07L01'' 5, matches = [\<lparr>lineNumber = 1, line = ''x FOO'', context = []\<rparr>]\<rparr>,
              \<lparr>log = sampleLog ''07L03'' 7, matches = [\<lparr>lineNumber = 1, line = ''x FOO'', context = []\<rparr>]\<rparr>], 3),
        \<lparr>trace = [HttpQuery (pageQuery [] 200 0), HttpBody ''07L01'', HttpBody ''07L02'', HttpBody ''07L03''],
         directories = [], files = []\<rparr>)"
    unfolding f fa by (simp_all add: r) (simp_all add: sampleLog_def)
  with f fa b show ?thesis by (intro conjI)
qed

section \<open>Properties of the download pipeline\<close>

lemma quiet_refl: "quiet w w"
  by (simp add: quiet_def)

lemma quiet_trans: "quiet w w1 \<Longrightarrow> quiet w1 w2 \<Longrightarrow> quiet w w2"
  by (simp add: quiet_def)

lemma fetchLogs_quiet: "quiet w (snd (fetchLogs env f limit w))"
  by (cases f)
     (simp_all add: quiet_def getDebugLogs_def getDebugLogsByUser_def getDebugLogsByDateRange_def
        emit_def Let_def split: sum.splits)

lemma fetchByFilters_fetchLogs:
  "\<exists>f limit. fetchByFilters env options w = fetchLogs env f limit w"
proof -
  have "fetchByFilters env options w = fetchLogs env (ByUser (strOf (userId options))) (Some (maxResultsOr100 (maxResults options))) w
      \<or> fetchByFilters env options w = fetchLogs env (ByDateRange (dateFrom options) (dateTo options)) (Some (maxResultsOr100 (maxResults options))) w
      \<or> fetchByFilters env options w = fetchLogs env NoFilter (Some (maxResultsOr100 (maxResults options))) w"
    by (simp add: fetchByFilters_def)
  then show ?thesis by blast
qed

lemma fetchByFilters_quiet: "quiet w (snd (fetchByFilters env options w))"
  using fetchByFilters_fetchLogs[of env options w] fetchLogs_quiet by metis

lemma loopBody_quiet: "quiet w (snd (loopBody env wc maxLogs s w))"
  by (simp add: loopBody_def quiet_def emit_def Let_def split: sum.splits)

lemma fetchLoop_quiet:
  assumes "fetchLoop env wc maxLogs s w = Some y"
  shows "quiet w (snd y)"
proof (rule fetchLoop.raw_induct[where P = "\<lambda>env wc maxLogs s w y. quiet w (snd y)", OF _ assms], goal_cases)
  case (1 rec env wc maxLogs s w y)
  show ?case
  proof (cases "loopCondition maxLogs s")
    case False
    with 1(2) show ?thesis by (auto simp: quiet_refl)
  next
    case True
    obtain r w1 where b: "loopBody env wc maxLogs s w = (r, w1)" by force
    then have q: "quiet w w1" using loopBody_quiet[of w env wc maxLogs s] by simp
    show ?thesis
    proof (cases r)
      case None
      with 1(2) True b q show ?thesis by auto
    next
      case (Some s')
      with 1(2) True b have "rec env wc maxLogs s' w1 = Some y" by simp
      from 1(1)[OF this] q show ?thesis by (rule quiet_trans[rotated])
    qed
  qed
qed

lemma searchEach_bodies:
  "directories (snd (searchEach env options logs results w)) = directories w
   \<and> files (snd (searchEach env options logs results w)) = files w
   \<and> filter isBodyRequest (trace (snd (searchEach env options logs results w)))
       = filter isBodyRequest (trace w) @ map (\<lambda>l. HttpBody (LogId l)) logs"
  by (simp add: searchEach_eq filter_map comp_def)

lemma searchPhase_outcome:
  assumes "searchPhase env options useAllLogs w = Some (Inr (results, n), w1)"
  shows "\<exists>logs. n = length logs \<and> results = concat (map (resultOf env options) logs)
           \<and> directories w1 = directories w \<and> files w1 = files w
           \<and> filter isBodyRequest (trace w1)
               = filter isBodyRequest (trace w) @ map (\<lambda>l. HttpBody (LogId l)) logs"
proof (cases useAllLogs)
  case False
  obtain r w0 where f: "fetchByFilters env options w = (r, w0)" by force
  with assms False obtain logs where r: "r = Inr logs"
    by (cases r) (auto simp: searchPhase_def searchLogsWithStats_def)
  have q: "quiet w w0" using fetchByFilters_quiet[of w env options] f by simp
  from assms False f r have "n = length logs" "results = concat (map (resultOf env options) logs)"
    "w1 = snd (searchEach env options logs [] w0)"
    by (auto simp: searchPhase_def searchLogsWithStats_def searchEach_eq)
  with q searchEach_bodies[of env options logs "[]" w0] show ?thesis
    by (auto simp: quiet_def)
next
  case True
  with assms obtain logs w0 where f: "fetchAllByFilters env options w = Some (logs, w0)"
    by (auto simp: searchPhase_def searchAllLogsWithStats_def split: option.splits)
  then have "\<exists>wc. fetchLoop env wc (maxResults options) initialState w = Some (logs, w0)"
    by (auto simp: fetchAllByFilters_def getAllDebugLogs_def getAllDebugLogsByUser_def
          getAllDebugLogsByDateRange_def split: if_splits)
  then have q: "quiet w w0" using fetchLoop_quiet by fastforce
  from assms True f have "n = length logs" "results = concat (map (resultOf env options) logs)"
    "w1 = snd (searchEach env options logs [] w0)"
    by (auto simp: searchPhase_def searchAllLogsWithStats_def searchEach_eq)
  with q searchEach_bodies[of env options logs "[]" w0] show ?thesis
    by (auto simp: quiet_def)
qed

text \<open>
  Claim C9. When the search of \<open>searchAndDownloadLogs\<close> finds no matching log, the function
  returns at once the report with the number of logs searched and with \<open>matchingLogs = 0\<close>,
  \<open>downloadedLogs = 0\<close>, \<open>estimatedSize = 0\<close> and no failed download. What follows the search
  does nothing: the world returned is the world the search left, so neither the creation of
  the directory nor the bulk body fetch is called. No directory is created and no file is
  written in the whole call, and its only body requests are those by which the search read
  the records, one for each record searched.
\<close>

theorem no_matches_no_download:
  assumes "searchPhase env options useAllLogs w = Some (Inr ([], n), w1)"
  shows "searchAndDownloadLogs env options dl useAllLogs w =
           Some (Inr \<lparr>result_searchText = searchText options, totalLogsSearched = n,
                      matchingLogs = 0, downloadedLogs = 0, failedDownloads = [],
                      downloadPath = outputDir dl, estimatedSize = 0\<rparr>, w1)
         \<and> snd (downloadSearchResults env options dl [] n w1) = w1
         \<and> directories w1 = directories w
         \<and> files w1 = files w
         \<and> (\<exists>logs :: DebugLog list. length logs = n
               \<and> filter isBodyRequest (trace w1)
                   = filter isBodyRequest (trace w) @ map (\<lambda>l. HttpBody (LogId l)) logs)"
proof -
  from searchPhase_outcome[OF assms] obtain logs where
      "n = length logs \<and> [] = concat (map (resultOf env options) logs)
           \<and> directories w1 = directories w \<and> files w1 = files w
           \<and> filter isBodyRequest (trace w1)
               = filter isBodyRequest (trace w) @ map (\<lambda>l. HttpBody (LogId l)) logs" ..
  then have l: "n = length logs"
      "directories w1 = directories w" "files w1 = files w"
      "filter isBodyRequest (trace w1)
         = filter isBodyRequest (trace w) @ map (\<lambda>l. HttpBody (LogId l)) logs"
    by simp_all
  have r: "searchAndDownloadLogs env options dl useAllLogs w =
           Some (Inr \<lparr>result_searchText = searchText options, totalLogsSearched = n,
                      matchingLogs = 0, downloadedLogs = 0, failedDownloads = [],
                      downloadPath = outputDir dl, estimatedSize = 0\<rparr>, w1)"
    using assms by (simp add: searchAndDownloadLogs_def downloadSearchResults_def)
  from l(1,4) have "\<exists>logs :: DebugLog list. length logs = n
               \<and> filter isBodyRequest (trace w1)
                   = filter isBodyRequest (trace w) @ map (\<lambda>l. HttpBody (LogId l)) logs"
    by (intro exI[of _ logs]) simp
  moreover have "snd (downloadSearchResults env options dl [] n w1) = w1"
    by (simp add: downloadSearchResults_def)
  ultimately show ?thesis using r l(2,3) by (intro conjI)
qed

lemma ex_search_none:
  "searchPhase (sampleEnv (\<lambda>q. Inr [sampleLog ''07L01'' 5]) (\<lambda>i. Inr ''hello'')) (sampleOptions ''zzz'') False emptyWorld
     = Some (Inr ([], 1), \<lparr>trace = [HttpQuery (limitQuery [] 100), HttpBody ''07L01''], directories = [], files = []\<rparr>)"
proof -
  have m: "searchInLogBody ''hello'' ''zzz'' False = []" by code_simp
  show ?thesis
    by (simp add: searchPhase_def searchLogsWithStats_def fetchByFilters_def sampleOptions_def
          getDebugLogs_def getDebugLogBody_def sampleEnv_def emit_def emptyWorld_def Let_def
          sampleLog_def m)
qed

theorem no_matches_witness:
  "searchPhase (sampleEnv (\<lambda>q. Inr [sampleLog ''07L01'' 5]) (\<lambda>i. Inr ''hello'')) (sampleOptions ''zzz'') False emptyWorld
     = Some (Inr ([], 1), \<lparr>trace = [HttpQuery (limitQuery [] 100), HttpBody ''07L01''], directories = [], files = []\<rparr>)
   \<and> searchAndDownloadLogs (sampleEnv (\<lambda>q. Inr [sampleLog ''07L01'' 5]) (\<lambda>i. Inr ''hello''))
        (sampleOptions ''zzz'') (sampleDownload True True) False emptyWorld
     = Some (Inr \<lparr>result_searchText = ''zzz'', totalLogsSearched = 1,
                  matchingLogs = 0, downloadedLogs = 0, failedDownloads = [],
                  downloadPath = ''out'', estimatedSize = 0\<rparr>,
             \<lparr>trace = [HttpQuery (limitQuery [] 100), HttpBody ''07L01''], directories = [], files = []\<rparr>)"
proof -
  from no_matches_no_download[OF ex_search_none, THEN conjunct1, of "sampleDownload True True"]
  have "searchAndDownloadLogs (sampleEnv (\<lambda>q. Inr [sampleLog ''07L01'' 5]) (\<lambda>i. Inr ''hello''))
        (sampleOptions ''zzz'') (sampleDownload True True) False emptyWorld
     = Some (Inr \<lparr>result_searchText = ''zzz'', totalLogsSearched = 1,
                  matchingLogs = 0, downloadedLogs = 0, failedDownloads = [],
                  downloadPath = ''out'', estimatedSize = 0\<rparr>,
             \<lparr>trace = [HttpQuery (limitQuery [] 100), HttpBody ''07L01''], directories = [], files = []\<rparr>)"
    by (simp add: sampleOptions_def sampleDownload_def)
  with ex_search_none show ?thesis by (intro conjI)
qed

lemma length_concat_resultOf:
  "length (concat (map (resultOf env options) logs)) \<le> length logs"
  by (induction logs) (auto simp: resultOf_def Let_def split: sum.splits)

lemma length_concat_resultOf_less:
  "\<exists>l\<in>set logs. resultOf env options l = [] \<Longrightarrow>
     length (concat (map (resultOf env options) logs)) < length logs"
proof (induction logs)
  case Nil then show ?case by simp
next
  case (Cons a logs)
  have one: "length (resultOf env options a) \<le> 1"
    by (auto simp: resultOf_def Let_def split: sum.splits)
  show ?case
  proof (cases "resultOf env options a = []")
    case True
    then show ?thesis using length_concat_resultOf[of env options logs] by simp
  next
    case False
    with Cons.prems have "\<exists>l\<in>set logs. resultOf env options l = []" by auto
    from Cons.IH[OF this] one show ?thesis by simp
  qed
qed

lemma createDownloadSummary_Inr:
  assumes "createDownloadSummary env p txt a b c failed w = (Inr u, w')"
  shows "files w' = files w @ [(p, SummaryJson \<lparr>summary_searchText = txt,
                      summary_totalLogsSearched = a,
                      summary_logsWithMatches = b,
                      summary_logsDownloaded = c,
                      summary_downloadsFailed = length failed,
                      summary_failedDownloads = map (\<lambda>logId. (logId, ''API Error'')) failed\<rparr>)]"
  using assms by (auto simp: createDownloadSummary_def Let_def split: option.splits)

lemma downloadSearchResults_summary:
  assumes run: "downloadSearchResults env options dl results n w1 = (Inr r, w')"
    and ne: "results \<noteq> []" and cs: "createSummary dl"
  shows "\<exists>s. files w' \<noteq> []
           \<and> last (files w') = (pathJoin env (outputDir dl) ''download-summary.json'', SummaryJson s)
           \<and> summary_totalLogsSearched s = length results
           \<and> summary_logsWithMatches s = length results
           \<and> summary_logsDownloaded s = downloadedLogs r
           \<and> matchingLogs r = length results
           \<and> totalLogsSearched r = n"
proof -
  obtain u w2 where e: "ensureDirectoryExists env (outputDir dl) w1 = (Inr u, w2)"
    using run ne by (cases "ensureDirectoryExists env (outputDir dl) w1")
      (auto simp: downloadSearchResults_def checkDiskSpace_def Let_def split: sum.splits)
  obtain bodies w3 where b: "getDebugLogBodies env (map LogId (map log results)) w2 = (bodies, w3)"
    by force
  obtain downloaded failed w4 where s: "saveResults env dl bodies results [] [] w3 = ((downloaded, failed), w4)"
    by (metis surj_pair)
  let ?r = "\<lparr>result_searchText = searchText options, totalLogsSearched = n,
             matchingLogs = length results, downloadedLogs = length downloaded,
             failedDownloads = failed, downloadPath = outputDir dl,
             estimatedSize = snd (checkDiskSpace env (map log results) (outputDir dl) w1)\<rparr>"
  from run ne cs e b s obtain u' where
    c: "createDownloadSummary env (pathJoin env (outputDir dl) ''download-summary.json'')
          (searchText options) (length (map log results)) (length results) (length downloaded) failed w4
        = (Inr u', w')" and r: "r = ?r"
    by (auto simp: downloadSearchResults_def checkDiskSpace_def Let_def split: sum.splits prod.splits)
  from createDownloadSummary_Inr[OF c] r show ?thesis by simp
qed

text \<open>
  Claim C10. When \<open>searchAndDownloadLogs\<close> finds at least one matching log, is asked for a
  summary and returns a report, the last file written is \<open>download-summary.json\<close> in the
  output directory, and its \<open>totalLogsSearched\<close> is the number of matching logs, which is
  also \<open>matchingLogs\<close> of the report, while \<open>totalLogsSearched\<close> of the report is the number
  of logs searched. The first is at most the second, and smaller as soon as one searched
  log added no result.
\<close>

theorem summary_counts_matching_logs:
  assumes search: "searchPhase env options useAllLogs w = Some (Inr (results, n), w1)"
    and ne: "results \<noteq> []"
    and cs: "createSummary dl"
    and run: "searchAndDownloadLogs env options dl useAllLogs w = Some (Inr r, w')"
  shows "\<exists>s logs. files w' \<noteq> []
           \<and> last (files w') = (pathJoin env (outputDir dl) ''download-summary.json'', SummaryJson s)
           \<and> summary_totalLogsSearched s = length results
           \<and> matchingLogs r = length results
           \<and> totalLogsSearched r = n
           \<and> n = length logs
           \<and> results = concat (map (resultOf env options) logs)
           \<and> summary_totalLogsSearched s \<le> totalLogsSearched r
           \<and> ((\<exists>l\<in>set logs. resultOf env options l = []) \<longrightarrow>
                  summary_totalLogsSearched s < totalLogsSearched r)"
proof -
  from run search have d: "downloadSearchResults env options dl results n w1 = (Inr r, w')"
    by (simp add: searchAndDownloadLogs_def)
  from downloadSearchResults_summary[OF d ne cs] obtain s where s:
    "files w' \<noteq> []"
    "last (files w') = (pathJoin env (outputDir dl) ''download-summary.json'', SummaryJson s)"
    "summary_totalLogsSearched s = length results"
    "matchingLogs r = length results" "totalLogsSearched r = n"
    by blast
  from searchPhase_outcome[OF search] obtain logs where l:
    "n = length logs" "results = concat (map (resultOf env options) logs)"
    by blast
  have le: "summary_totalLogsSearched s \<le> totalLogsSearched r"
    using s(3,5) l length_concat_resultOf[of env options logs] by simp
  have lt: "(\<exists>l\<in>set logs. resultOf env options l = []) \<longrightarrow>
                  summary_totalLogsSearched s < totalLogsSearched r"
    using s(3,5) l length_concat_resultOf_less[of logs env options] by simp
  from s l le lt show ?thesis by blast
qed


lemma downloadSearchResults_succeeds:
  assumes "\<And>p. mkdirError env p = None" "\<And>p. writeFileError env p = None"
  shows "\<exists>r w'. downloadSearchResults env options dl results n w = (Inr r, w')"
  by (simp add: downloadSearchResults_def checkDiskSpace_def ensureDirectoryExists_def
        createDownloadSummary_def Let_def assms split: prod.splits)

lemma ex_search_some:
  "searchPhase (sampleEnv (\<lambda>q. Inr [sampleLog ''07L01'' 5, sampleLog ''07L02'' 6, sampleLog ''07L03'' 7])
          (\<lambda>i. if i = ''07L02'' then Inl (Error ''404'') else Inr ''x FOO'')) (sampleOptions ''foo'') False emptyWorld
     = Some (Inr ([\<lparr>log = sampleLog ''07L01'' 5, matches = [\<lparr>lineNumber = 1, line = ''x FOO'', context = []\<rparr>]\<rparr>,
              \<lparr>log = sampleLog ''07L03'' 7, matches = [\<lparr>lineNumber = 1, line = ''x FOO'', context = []\<rparr>]\<rparr>], 3),
        \<lparr>trace = [HttpQuery (limitQuery [] 100), HttpBody ''07L01'', HttpBody ''07L02'', HttpBody ''07L03''],
         directories = [], files = []\<rparr>)"
proof -
  have m: "searchInLogBody ''x FOO'' ''foo'' False = [\<lparr>lineNumber = 1, line = ''x FOO'', context = []\<rparr>]"
    by code_simp
  show ?thesis
    by (simp add: searchPhase_def searchLogsWithStats_def fetchByFilters_def sampleOptions_def
          getDebugLogs_def sampleEnv_def emit_def emptyWorld_def Let_def searchEach_eq resultOf_def m)
       (simp add: sampleLog_def)
qed

theorem summary_counts_witness:
  "searchPhase (sampleEnv (\<lambda>q. Inr [sampleLog ''07L01'' 5, sampleLog ''07L02'' 6, sampleLog ''07L03'' 7])
          (\<lambda>i. if i = ''07L02'' then Inl (Error ''404'') else Inr ''x FOO'')) (sampleOptions ''foo'') False emptyWorld
     = Some (Inr ([\<lparr>log = sampleLog ''07L01'' 5, matches = [\<lparr>lineNumber = 1, line = ''x FOO'', context = []\<rparr>]\<rparr>,
              \<lparr>log = sampleLog ''07L03'' 7, matches = [\<lparr>lineNumber = 1, line = ''x FOO'', context = []\<rparr>]\<rparr>], 3),
        \<lparr>trace = [HttpQuery (limitQuery [] 100), HttpBody ''07L01'', HttpBody ''07L02'', HttpBody ''07L03''],
         directories = [], files = []\<rparr>)
   \<and> createSummary (sampleDownload False True)
   \<and> (\<exists>r w' s. searchAndDownloadLogs
          (sampleEnv (\<lambda>q. Inr [sampleLog ''07L01'' 5, sampleLog ''07L02'' 6, sampleLog ''07L03'' 7])
             (\<lambda>i. if i = ''07L02'' then Inl (Error ''404'') else Inr ''x FOO''))
          (sampleOptions ''foo'') (sampleDownload False True) False emptyWorld = Some (Inr r, w')
        \<and> last (files w') = (''out/download-summary.json'', SummaryJson s)
        \<and> summary_totalLogsSearched s = 2
        \<and> matchingLogs r = 2
        \<and> totalLogsSearched r = 3)"
proof -
  let ?E = "sampleEnv (\<lambda>q. Inr [sampleLog ''07L01'' 5, sampleLog ''07L02'' 6, sampleLog ''07L03'' 7])
          (\<lambda>i. if i = ''07L02'' then Inl (Error ''404'') else Inr ''x FOO'')"
  let ?R = "[\<lparr>log = sampleLog ''07L01'' 5, matches = [\<lparr>lineNumber = 1, line = ''x FOO'', context = []\<rparr>]\<rparr>,
              \<lparr>log = sampleLog ''07L03'' 7, matches = [\<lparr>lineNumber = 1, line = ''x FOO'', context = []\<rparr>]\<rparr>]"
  have cs: "createSummary (sampleDownload False True)" by (simp add: sampleDownload_def)
  have ne: "?R \<noteq> []" by simp
  have "\<And>p. mkdirError ?E p = None" "\<And>p. writeFileError ?E p = None"
    by (simp_all add: sampleEnv_def)
  from downloadSearchResults_succeeds[OF this] ex_search_some
  obtain r w' where run: "searchAndDownloadLogs ?E (sampleOptions ''foo'') (sampleDownload False True) False emptyWorld
      = Some (Inr r, w')"
    by (fastforce simp: searchAndDownloadLogs_def)
  from summary_counts_matching_logs[OF ex_search_some ne cs run] obtain s where
    "last (files w') = (pathJoin ?E (outputDir (sampleDownload False True)) ''download-summary.json'', SummaryJson s)"
    "summary_totalLogsSearched s = length ?R" "matchingLogs r = length ?R" "totalLogsSearched r = 3"
    by blast
  then have "last (files w') = (''out/download-summary.json'', SummaryJson s)
        \<and> summary_totalLogsSearched s = 2 \<and> matchingLogs r = 2 \<and> totalLogsSearched r = 3"
    by (simp add: sampleEnv_def sampleDownload_def)
  with run ex_search_some cs show ?thesis by blast
qed

lemma recoverMetadata_eq:
  "recoverMetadata env logIds found w =
     (found @ recoveredLogs env logIds,
      w\<lparr>trace := trace w @ replicate (length logIds) (HttpQuery (limitQuery [] 1000))\<rparr>)"
proof (induction logIds arbitrary: found w)
  case Nil
  then show ?case by (simp add: recoveredLogs_def)
next
  case (Cons i logIds)
  show ?case
    by (cases "toolingQuery env (limitQuery [] 1000)")
       (auto simp: Cons.IH getDebugLogs_def emit_def recoveredLogs_def Let_def replicate_app_Cons_same
             split: option.splits)
qed

lemma find_SomeD: "find P xs = Some x \<Longrightarrow> P x \<and> x \<in> set xs"
  by (induction xs) (auto split: if_splits)

lemma recoveredLogs_ids:
  assumes "l \<in> set (recoveredLogs env logIds)"
  shows "LogId l \<in> set logIds \<and> (\<exists>page. toolingQuery env (limitQuery [] 1000) = Inr page \<and> l \<in> set page)"
proof -
  from assms obtain i where i: "i \<in> set logIds"
    and m: "l \<in> set (case toolingQuery env (limitQuery [] 1000) of
                         Inl e \<Rightarrow> []
                       | Inr logs \<Rightarrow> (case find (\<lambda>l. LogId l = i) logs of
                                        Some l \<Rightarrow> [l]
                                      | None \<Rightarrow> []))"
    by (auto simp: recoveredLogs_def)
  show ?thesis
  proof (cases "toolingQuery env (limitQuery [] 1000)")
    case (Inl e)
    with m show ?thesis by simp
  next
    case (Inr page)
    show ?thesis
    proof (cases "find (\<lambda>l. LogId l = i) page")
      case None
      with m Inr show ?thesis by simp
    next
      case (Some l')
      with m Inr have "l' = l" by simp
      with find_SomeD[OF Some] i Inr show ?thesis by auto
    qed
  qed
qed

lemma foldl_estimate:
  "foldl (\<lambda>total l. total + getApproximateFileSize (LogLength l)) a logs
     = a + sum_list (map (\<lambda>l. LogLength l + 1024) logs)"
  by (induction logs arbitrary: a) (simp_all add: getApproximateFileSize_def)

lemma saveLogs_eq:
  assumes "\<And>l. l \<in> set ls \<Longrightarrow> bodies (LogId l) = bodyOf env (LogId l)"
  shows "\<exists>written d f. saveLogs env dl bodies ls downloaded failed w
           = ((downloaded @ d, failed @ f), w\<lparr>files := files w @ written\<rparr>)
         \<and> set written \<subseteq> (\<Union>l\<in>set ls. filesOf env dl l)
         \<and> set d \<subseteq> LogId ` set ls \<and> set f \<subseteq> LogId ` set ls
         \<and> length d \<le> length ls"
  using assms
proof (induction ls arbitrary: downloaded failed w)
  case Nil
  then show ?case by simp
next
  case (Cons l ls)
  have bl: "bodies (LogId l) = bodyOf env (LogId l)" using Cons.prems by simp
  have rest: "\<And>downloaded failed w. \<exists>written d f. saveLogs env dl bodies ls downloaded failed w
           = ((downloaded @ d, failed @ f), w\<lparr>files := files w @ written\<rparr>)
         \<and> set written \<subseteq> (\<Union>l\<in>set ls. filesOf env dl l)
         \<and> set d \<subseteq> LogId ` set ls \<and> set f \<subseteq> LogId ` set ls
         \<and> length d \<le> length ls"
    using Cons.IH Cons.prems by simp
  let ?p = "pathJoin env (outputDir dl) (generateLogFileName env l ''.log'')"
  let ?mp = "pathJoin env (outputDir dl) (generateMetadataFileName env l)"
  consider (nobody) "noBody (bodies (LogId l))"
    | (logfail) b where "bodies (LogId l) = Some b" "b \<noteq> []" "writeFileError env ?p \<noteq> None"
    | (nometa) b where "bodies (LogId l) = Some b" "b \<noteq> []" "writeFileError env ?p = None" "\<not> includeMetadata dl"
    | (metafail) b where "bodies (LogId l) = Some b" "b \<noteq> []" "writeFileError env ?p = None" "includeMetadata dl"
        "writeFileError env ?mp \<noteq> None"
    | (both) b where "bodies (LogId l) = Some b" "b \<noteq> []" "writeFileError env ?p = None" "includeMetadata dl"
        "writeFileError env ?mp = None"
    by (cases "bodies (LogId l)") auto
  then show ?case
  proof cases
    case nobody
    from rest[of downloaded "failed @ [LogId l]" w] obtain written d f where
      r: "saveLogs env dl bodies ls downloaded (failed @ [LogId l]) w
           = ((downloaded @ d, (failed @ [LogId l]) @ f), w\<lparr>files := files w @ written\<rparr>)"
      "set written \<subseteq> (\<Union>l\<in>set ls. filesOf env dl l)"
      "set d \<subseteq> LogId ` set ls" "set f \<subseteq> LogId ` set ls" "length d \<le> length ls"
      by blast
    show ?thesis
      apply (rule exI[of _ written], rule exI[of _ d], rule exI[of _ "LogId l # f"])
      using nobody r by auto
  next
    case logfail
    from rest[of downloaded "failed @ [LogId l]" w] obtain written d f where
      r: "saveLogs env dl bodies ls downloaded (failed @ [LogId l]) w
           = ((downloaded @ d, (failed @ [LogId l]) @ f), w\<lparr>files := files w @ written\<rparr>)"
      "set written \<subseteq> (\<Union>l\<in>set ls. filesOf env dl l)"
      "set d \<subseteq> LogId ` set ls" "set f \<subseteq> LogId ` set ls" "length d \<le> length ls"
      by blast
    show ?thesis
      apply (rule exI[of _ written], rule exI[of _ d], rule exI[of _ "LogId l # f"])
      using logfail r by (auto simp: Let_def saveLogToFile_def)
  next
    case nometa
    let ?w1 = "w\<lparr>files := files w @ [(?p, LogText b)]\<rparr>"
    from rest[of "downloaded @ [LogId l]" failed ?w1] obtain written d f where
      r: "saveLogs env dl bodies ls (downloaded @ [LogId l]) failed ?w1
           = (((downloaded @ [LogId l]) @ d, failed @ f), ?w1\<lparr>files := files ?w1 @ written\<rparr>)"
      "set written \<subseteq> (\<Union>l\<in>set ls. filesOf env dl l)"
      "set d \<subseteq> LogId ` set ls" "set f \<subseteq> LogId ` set ls" "length d \<le> length ls"
      by blast
    have m: "(?p, LogText b) \<in> filesOf env dl l" using nometa(1) bl by (simp add: filesOf_def)
    show ?thesis
      apply (rule exI[of _ "(?p, LogText b) # written"], rule exI[of _ "LogId l # d"], rule exI[of _ f])
      using m nometa r by (auto simp: Let_def saveLogToFile_def)
  next
    case metafail
    let ?w1 = "w\<lparr>files := files w @ [(?p, LogText b)]\<rparr>"
    from rest[of downloaded "failed @ [LogId l]" ?w1] obtain written d f where
      r: "saveLogs env dl bodies ls downloaded (failed @ [LogId l]) ?w1
           = ((downloaded @ d, (failed @ [LogId l]) @ f), ?w1\<lparr>files := files ?w1 @ written\<rparr>)"
      "set written \<subseteq> (\<Union>l\<in>set ls. filesOf env dl l)"
      "set d \<subseteq> LogId ` set ls" "set f \<subseteq> LogId ` set ls" "length d \<le> length ls"
      by blast
    have m: "(?p, LogText b) \<in> filesOf env dl l" using metafail(1) bl by (simp add: filesOf_def)
    show ?thesis
      apply (rule exI[of _ "(?p, LogText b) # written"], rule exI[of _ d], rule exI[of _ "LogId l # f"])
      using m metafail r by (auto simp: Let_def saveLogToFile_def saveMetadataToFile_def)
  next
    case both
    let ?w2 = "w\<lparr>files := files w @ [(?p, LogText b), (?mp, MetadataJson l [])]\<rparr>"
    from rest[of "downloaded @ [LogId l]" failed ?w2] obtain written d f where
      r: "saveLogs env dl bodies ls (downloaded @ [LogId l]) failed ?w2
           = (((downloaded @ [LogId l]) @ d, failed @ f), ?w2\<lparr>files := files ?w2 @ written\<rparr>)"
      "set written \<subseteq> (\<Union>l\<in>set ls. filesOf env dl l)"
      "set d \<subseteq> LogId ` set ls" "set f \<subseteq> LogId ` set ls" "length d \<le> length ls"
      by blast
    have m: "(?p, LogText b) \<in> filesOf env dl l" "(?mp, MetadataJson l []) \<in> filesOf env dl l"
      using both(1) bl by (simp_all add: filesOf_def)
    show ?thesis
      apply (rule exI[of _ "(?p, LogText b) # (?mp, MetadataJson l []) # written"], rule exI[of _ "LogId l # d"], rule exI[of _ f])
      using m both r by (auto simp: Let_def saveLogToFile_def saveMetadataToFile_def)
  qed
qed


lemma getDebugLogBodies_eq:
  "getDebugLogBodies env logIds w =
     ((\<lambda>i. if i \<in> set logIds then bodyOf env i else None),
      w\<lparr>trace := trace w @ withDelays (map (map HttpBody) (groupsOf 10 logIds))\<rparr>)"
  by (auto simp: getDebugLogBodies_def getDebugLogBodies_loop_eq fun_eq_iff)

text \<open>
  Claim C8, as amended. In \<open>downloadLogsByIds\<close>, a requested id that is not among the records
  of the recovery page is not among the records with metadata: the estimated size is
  summed over those records only, and the save loop runs over them only, so every file
  written is a file of one of them, the id is not among the failed downloads, and at most
  as many logs are downloaded as there are records with metadata. No file is written for
  the id, whether the bulk fetch retrieved its body or not.
\<close>

theorem downloadLogsByIds_without_metadata:
  assumes run: "downloadLogsByIds env logIds dl w = (Inr r, w')"
    and page: "toolingQuery env (limitQuery [] 1000) = Inr page"
    and missing: "i \<notin> LogId ` set page"
  shows "i \<notin> LogId ` set (recoveredLogs env logIds)
     \<and> estimatedSize r = sum_list (map (\<lambda>l. LogLength l + 1024) (recoveredLogs env logIds))
     \<and> i \<notin> set (failedDownloads r)
     \<and> downloadedLogs r \<le> length (recoveredLogs env logIds)
     \<and> (\<exists>written. files w' = files w @ written
           \<and> set written \<subseteq> (\<Union>l\<in>set (recoveredLogs env logIds). filesOf env dl l))"
proof -
  let ?found = "recoveredLogs env logIds"
  let ?w1 = "w\<lparr>trace := trace w @ replicate (length logIds) (HttpQuery (limitQuery [] 1000))\<rparr>"
  let ?bodies = "\<lambda>i. if i \<in> set logIds then bodyOf env i else None"
  have notin: "i \<notin> LogId ` set ?found"
    using recoveredLogs_ids[of _ env logIds] page missing by auto
  obtain u w2 where e: "ensureDirectoryExists env (outputDir dl) ?w1 = (Inr u, w2)"
    using run by (cases "ensureDirectoryExists env (outputDir dl) ?w1")
      (auto simp: downloadLogsByIds_def recoverMetadata_eq checkDiskSpace_def Let_def split: sum.splits)
  then have f2: "files w2 = files w"
    by (auto simp: ensureDirectoryExists_def split: if_splits option.splits)
  let ?w3 = "w2\<lparr>trace := trace w2 @ withDelays (map (map HttpBody) (groupsOf 10 logIds))\<rparr>"
  have "\<And>l. l \<in> set ?found \<Longrightarrow> ?bodies (LogId l) = bodyOf env (LogId l)"
    using recoveredLogs_ids[of _ env logIds] by simp
  from saveLogs_eq[of ?found ?bodies env dl "[]" "[]" ?w3, OF this]
  obtain written d f where s: "saveLogs env dl ?bodies ?found [] [] ?w3 = ((d, f), ?w3\<lparr>files := files ?w3 @ written\<rparr>)"
    "set written \<subseteq> (\<Union>l\<in>set ?found. filesOf env dl l)"
    "set d \<subseteq> LogId ` set ?found" "set f \<subseteq> LogId ` set ?found" "length d \<le> length ?found"
    by auto
  from run e s(1) have r: "r = \<lparr>result_searchText = ''Direct download'',
                                         totalLogsSearched = length logIds,
                                         matchingLogs = length logIds,
                                         downloadedLogs = length d,
                                         failedDownloads = f,
                                         downloadPath = outputDir dl,
                                         estimatedSize = sum_list (map (\<lambda>l. LogLength l + 1024) ?found)\<rparr>"
    and w': "w' = ?w3\<lparr>files := files ?w3 @ written\<rparr>"
    by (simp_all add: downloadLogsByIds_def recoverMetadata_eq checkDiskSpace_def Let_def
          getDebugLogBodies_eq foldl_estimate)
  have "files w' = files w @ written" using w' f2 by simp
  with s(2) have "\<exists>written. files w' = files w @ written
           \<and> set written \<subseteq> (\<Union>l\<in>set ?found. filesOf env dl l)" by blast
  moreover have "i \<notin> set (failedDownloads r)" using r s(4) notin by auto
  moreover have "downloadedLogs r \<le> length ?found" using r s(5) by simp
  moreover have "estimatedSize r = sum_list (map (\<lambda>l. LogLength l + 1024) ?found)" using r by simp
  ultimately show ?thesis using notin by (intro conjI)
qed

lemma ex_download:
  "downloadLogsByIds (sampleEnv (\<lambda>q. Inr [sampleLog ''07L01'' 5]) (\<lambda>i. Inr ''hello''))
      [''07L01'', ''07L09''] (sampleDownload False False) emptyWorld
   = (Inr \<lparr>result_searchText = ''Direct download'', totalLogsSearched = 2, matchingLogs = 2,
            downloadedLogs = 1, failedDownloads = [], downloadPath = ''out'', estimatedSize = 1029\<rparr>,
      \<lparr>trace = [HttpQuery (limitQuery [] 1000), HttpQuery (limitQuery [] 1000),
                HttpBody ''07L01'', HttpBody ''07L09''],
       directories = [''out''],
       files = [(''out/2024-01-15__apex_Page_07L01.log'', LogText ''hello'')]\<rparr>)"
  by code_simp


theorem downloadLogsByIds_without_metadata_witness:
  "downloadLogsByIds (sampleEnv (\<lambda>q. Inr [sampleLog ''07L01'' 5]) (\<lambda>i. Inr ''hello''))
      [''07L01'', ''07L09''] (sampleDownload False False) emptyWorld
   = (Inr \<lparr>result_searchText = ''Direct download'', totalLogsSearched = 2, matchingLogs = 2,
            downloadedLogs = 1, failedDownloads = [], downloadPath = ''out'', estimatedSize = 1029\<rparr>,
      \<lparr>trace = [HttpQuery (limitQuery [] 1000), HttpQuery (limitQuery [] 1000),
                HttpBody ''07L01'', HttpBody ''07L09''],
       directories = [''out''],
       files = [(''out/2024-01-15__apex_Page_07L01.log'', LogText ''hello'')]\<rparr>)
   \<and> toolingQuery (sampleEnv (\<lambda>q. Inr [sampleLog ''07L01'' 5]) (\<lambda>i. Inr ''hello'')) (limitQuery [] 1000)
       = Inr [sampleLog ''07L01'' 5]
   \<and> ''07L09'' \<notin> LogId ` set [sampleLog ''07L01'' 5]
   \<and> ''07L09'' \<notin> LogId ` set (recoveredLogs (sampleEnv (\<lambda>q. Inr [sampleLog ''07L01'' 5]) (\<lambda>i. Inr ''hello''))
                                   [''07L01'', ''07L09''])
   \<and> (1029 :: int) = sum_list (map (\<lambda>l. LogLength l + 1024)
         (recoveredLogs (sampleEnv (\<lambda>q. Inr [sampleLog ''07L01'' 5]) (\<lambda>i. Inr ''hello'')) [''07L01'', ''07L09'']))"
proof -
  have p: "toolingQuery (sampleEnv (\<lambda>q. Inr [sampleLog ''07L01'' 5]) (\<lambda>i. Inr ''hello'')) (limitQuery [] 1000)
       = Inr [sampleLog ''07L01'' 5]"
    by (simp add: sampleEnv_def)
  have m: "''07L09'' \<notin> LogId ` set [sampleLog ''07L01'' 5]"
    by (simp add: sampleLog_def)
  from downloadLogsByIds_without_metadata[OF ex_download p m] ex_download p m
  show ?thesis by simp
qed

text \<open>
  An id that is not on the recovery page and whose body the bulk fetch retrieves: nothing
  is written, and the id counts neither as downloaded nor as failed.
\<close>

theorem downloadLogsByIds_counterexample:
  "fst (getDebugLogBodies (sampleEnv (\<lambda>q. Inr [sampleLog ''07L01'' 5]) (\<lambda>i. Inr ''hello''))
          [''07L09''] emptyWorld) ''07L09'' = Some ''hello''
   \<and> downloadLogsByIds (sampleEnv (\<lambda>q. Inr [sampleLog ''07L01'' 5]) (\<lambda>i. Inr ''hello''))
        [''07L09''] (sampleDownload True True) emptyWorld
     = (Inr \<lparr>result_searchText = ''Direct download'', totalLogsSearched = 1, matchingLogs = 1,
              downloadedLogs = 0, failedDownloads = [], downloadPath = ''out'', estimatedSize = 0\<rparr>,
        \<lparr>trace = [HttpQuery (limitQuery [] 1000), HttpBody ''07L09''],
         directories = [''out''], files = []\<rparr>)"
  by code_simp

end
